theory Spec2Isabelle
  imports Main "HOL-Library.Word"
begin

section \<open>Values, errors and the external collaborators' data\<close>

text \<open>
  The model follows \<^verbatim>\<open>src/rocketwatch/utils/rocketpool.py\<close>. A contract name, an on-chain
  address (a hex string, as the chain client returns it) and an ABI text are strings.
\<close>

type_synonym name = string
type_synonym address = string
type_synonym abi = string
type_synonym bytes = "8 word list"

text \<open>
  The Python values a caller may pass where the code expects an address or an argument,
  with Python's truth value (\<^verbatim>\<open>not x\<close> is the negation of \<open>truthy x\<close>).
\<close>

datatype pyval = PNone | PInt int | PStr string

fun truthy :: "pyval \<Rightarrow> bool" where
  "truthy PNone = False"
| "truthy (PInt i) = (i \<noteq> 0)"
| "truthy (PStr s) = (s \<noteq> [])"

text \<open>
  Every exception of the source is a value. The three \<^verbatim>\<open>raise Exception(f"...")\<close> of the
  source are told apart by their message: \<open>NoAddressFound name\<close> is
  \<^verbatim>\<open>Exception(f"No address found for {name} Contract")\<close>, \<open>NoAbiFound name\<close> is
  \<^verbatim>\<open>Exception(f"No abi found for {name} Contract")\<close>, and \<open>InvalidPartCount n\<close> is
  \<^verbatim>\<open>Exception(f"Invalid contract path: Invalid part count: have {n}, want 2")\<close>.
  \<open>ValueDuplicationError\<close> and \<open>KeyAndValueDuplicationError\<close> are raised by \<^verbatim>\<open>bidict\<close>,
  \<open>RecursionError\<close> by the interpreter when the nesting of calls exceeds its limit,
  \<open>TypeError\<close> by the hash function on a value that is not a string, by a subscript on a
  value that has none and by \<^verbatim>\<open>join\<close> on an item that is not a string, \<open>IndexError\<close> and
  \<open>KeyError key\<close> by a failed subscript. \<open>MismatchedABI\<close>, \<open>LogTopicError\<close> and
  \<open>InvalidEventABI\<close> are the chain client's exceptions for a log entry that is not of the
  event it is decoded against. \<open>External msg\<close> is whatever else an external collaborator
  (chain client, ABI decoding, contract factory) raises.
\<close>

datatype error =
    RecursionError
  | NoAddressFound name
  | NoAbiFound name
  | InvalidPartCount nat
  | ValueDuplicationError address
  | KeyAndValueDuplicationError name address
  | TypeError
  | IndexError
  | KeyError string
  | MismatchedABI
  | LogTopicError
  | InvalidEventABI
  | External string

section \<open>The registry: \<^verbatim>\<open>bidict\<close>\<close>

text \<open>
  \<^verbatim>\<open>self.addresses = bidict()\<close>. A \<^verbatim>\<open>bidict\<close> keeps a forward and an inverse dictionary.
  \<^verbatim>\<open>self.addresses[name] = address\<close> is its \<^verbatim>\<open>__setitem__\<close>, which runs under the library's
  default duplication policy (key: drop the old item; value: raise):
  \<^item> the pair is already there: nothing happens;
  \<^item> the key is there with another value and the value is new: the old value is replaced
    and its inverse entry deleted;
  \<^item> the value is there under another key: \<^verbatim>\<open>ValueDuplicationError\<close> (or
    \<^verbatim>\<open>KeyAndValueDuplicationError\<close> when the key is there too) and the bidict is unchanged;
  \<^item> neither is there: the pair is inserted in both directions.
\<close>

record bidict =
  fwdm :: "name \<rightharpoonup> address"
  invm :: "address \<rightharpoonup> name"

definition bidict_empty :: bidict where
  "bidict_empty = \<lparr>fwdm = Map.empty, invm = Map.empty\<rparr>"

definition bidict_setitem :: "bidict \<Rightarrow> name \<Rightarrow> address \<Rightarrow> error + bidict" where
  "bidict_setitem b key val =
     (case (fwdm b key, invm b val) of
        (Some oldval, Some oldkey) \<Rightarrow>
          if key = oldkey then Inr b else Inl (KeyAndValueDuplicationError key val)
      | (Some oldval, None) \<Rightarrow>
          Inr \<lparr>fwdm = (fwdm b)(key \<mapsto> val), invm = ((invm b)(val \<mapsto> key))(oldval := None)\<rparr>
      | (None, Some oldkey) \<Rightarrow> Inl (ValueDuplicationError val)
      | (None, None) \<Rightarrow>
          Inr \<lparr>fwdm = (fwdm b)(key \<mapsto> val), invm = (invm b)(val \<mapsto> key)\<rparr>)"

text \<open>The two directions of a bidict describe the same set of pairs.\<close>

definition bijective :: "bidict \<Rightarrow> bool" where
  "bijective b = (\<forall>n a. fwdm b n = Some a \<longleftrightarrow> invm b a = Some n)"

section \<open>The caches: \<^verbatim>\<open>cachetools.FIFOCache\<close> and \<^verbatim>\<open>cachetools.cached\<close>\<close>

text \<open>
  A \<^verbatim>\<open>FIFOCache(maxsize)\<close> holds its items in insertion order, oldest first; every item has
  size 1. \<^verbatim>\<open>cache[k] = v\<close> raises \<^verbatim>\<open>ValueError\<close> when one item is larger than \<open>maxsize\<close>,
  replaces the value of a key that is present (the key moves to the end of the order), and
  otherwise pops the first-inserted items until the new one fits.
\<close>

record ('k, 'v) fifo_cache =
  maxsize :: nat
  items :: "('k \<times> 'v) list"

definition FIFOCache :: "nat \<Rightarrow> ('k, 'v) fifo_cache" where
  "FIFOCache n = \<lparr>maxsize = n, items = []\<rparr>"

definition cache_getitem :: "('k, 'v) fifo_cache \<Rightarrow> 'k \<Rightarrow> 'v option" where
  "cache_getitem c k = map_of (items c) k"

definition cache_setitem :: "('k, 'v) fifo_cache \<Rightarrow> 'k \<Rightarrow> 'v \<Rightarrow> unit + ('k, 'v) fifo_cache" where
  "cache_setitem c k v =
     (if 1 > maxsize c then Inl ()
      else if k \<in> fst ` set (items c)
        then Inr (c\<lparr>items := filter (\<lambda>kv. fst kv \<noteq> k) (items c) @ [(k, v)]\<rparr>)
      else Inr (c\<lparr>items := drop (length (items c) + 1 - maxsize c) (items c) @ [(k, v)]\<rparr>))"

definition cache_clear :: "('k, 'v) fifo_cache \<Rightarrow> ('k, 'v) fifo_cache" where
  "cache_clear c = c\<lparr>items := []\<rparr>"

text \<open>
  The store of the \<^verbatim>\<open>cached\<close> wrapper:
  \<^verbatim>\<open>try: cache[k] = v  except ValueError: pass\<close>.
\<close>

definition cached_store :: "('k, 'v) fifo_cache \<Rightarrow> 'k \<Rightarrow> 'v \<Rightarrow> ('k, 'v) fifo_cache" where
  "cached_store c k v = (case cache_setitem c k v of Inl _ \<Rightarrow> c | Inr c' \<Rightarrow> c')"

section \<open>The external collaborators\<close>

text \<open>
  \<^verbatim>\<open>w3.soliditySha3(types, values)\<close> is kept symbolic: the hash of a typed tuple is the tuple
  itself, so two hashes are equal exactly when their pre-images are.
\<close>

datatype sha3 = SoliditySha3 "string list" "string list"

text \<open>A contract handle: what \<^verbatim>\<open>w3.eth.contract(address=address, abi=abi)\<close> binds, and on
  which of the two clients (\<^verbatim>\<open>mainnet_w3\<close> or \<^verbatim>\<open>w3\<close>).\<close>

record contract =
  c_address :: pyval
  c_abi :: abi
  c_mainnet :: bool

text \<open>\<^verbatim>\<open>contract.functions[function](*args)\<close>: a function of a handle bound to arguments.\<close>

record bound_call =
  bc_contract :: contract
  bc_function :: string
  bc_args :: "pyval list"

datatype multicall = Multicall

text \<open>
  The transaction handed to \<^verbatim>\<open>get_revert_reason\<close>; the dictionary of call parameters
  \<^verbatim>\<open>{"from": ..., "to": ..., "data": ..., "gas": ..., "gasPrice": ..., "value": ...}\<close> that
  \<^verbatim>\<open>w3.eth.call\<close> receives; and the outcome of the call: it returns, or raises
  \<^verbatim>\<open>ContractLogicError\<close> with its arguments \<^verbatim>\<open>err.args\<close>, or raises another \<^verbatim>\<open>ValueError\<close>
  with its arguments, or raises anything else. An argument of an exception is a
  dictionary from strings to values (as the error object of the JSON-RPC response is) or
  a plain value.
\<close>

record tnx =
  tx_from :: string
  tx_to :: string
  tx_input :: bytes
  tx_gas :: int
  tx_gasPrice :: int
  tx_value :: int
  tx_blockNumber :: int
  tx_hash :: bytes

record call_params =
  cp_from :: string
  cp_to :: string
  cp_data :: bytes
  cp_gas :: int
  cp_gasPrice :: int
  cp_value :: int

datatype pyarg = Value pyval | Dict "string \<rightharpoonup> pyval"

datatype call_outcome =
    Returned bytes
  | ContractLogicError "pyval list"
  | ValueError "pyarg list"
  | OtherError string

text \<open>A receipt is its list of log entries (topics and data); the deposit event of the
  deposit contract carries the validator's public key.\<close>

type_synonym log_entry = "bytes list \<times> bytes"
type_synonym receipt = "log_entry list"

record deposit_event =
  pubkey :: bytes

text \<open>
  Everything the module reads from outside itself is a field of \<open>world\<close>:
  \<^item> \<open>manual_addresses\<close>: \<^verbatim>\<open>cfg["rocketpool.manual_addresses"].items()\<close>, with distinct names
    (it is a dictionary);
  \<^item> \<open>new_Multicall\<close>: \<^verbatim>\<open>Multicall(w3.eth)\<close>, or the exception it raises;
  \<^item> \<open>abi_files\<close>: the files under \<^verbatim>\<open>./contracts/\<close>, from path to contents
    (\<^verbatim>\<open>os.path.exists\<close> and \<^verbatim>\<open>f.read()\<close>);
  \<^item> \<open>toInt\<close>: \<^verbatim>\<open>w3.toInt(hexstr=address)\<close>;
  \<^item> \<open>getAddress\<close>, \<open>getString\<close>: \<^verbatim>\<open>contract.functions.getAddress(sha3).call()\<close> and
    \<^verbatim>\<open>contract.functions.getString(sha3).call()\<close>, or the exception raised;
  \<^item> \<open>decode_abi\<close>: \<^verbatim>\<open>utils.readable.decode_abi\<close>;
  \<^item> \<open>contract_factory\<close>: the exception \<^verbatim>\<open>(mainnet_)w3.eth.contract(address, abi)\<close> raises on
    these arguments, if any;
  \<^item> \<open>bind_function\<close>: the exception \<^verbatim>\<open>contract.functions[function](*args)\<close> raises, if any;
  \<^item> \<open>call_function\<close>, \<open>estimateGas\<close>: \<^verbatim>\<open>.call(block_identifier=block)\<close> and
    \<^verbatim>\<open>.estimateGas({"gas": gas}, block_identifier=block)\<close> of a bound function;
  \<^item> \<open>eth_call\<close>: \<^verbatim>\<open>w3.eth.call(params, block_identifier=block)\<close>;
  \<^item> \<open>DepositEvent\<close>: \<^verbatim>\<open>contract.events.DepositEvent()\<close>, the decoder of one log entry
    against that event (the decoded event, or the exception the decoding raises), or the
    exception raised when the handle has no such event.
\<close>

record world =
  manual_addresses :: "(name \<times> address) list"
  new_Multicall :: "string + multicall"
  abi_files :: "string \<rightharpoonup> string"
  toInt :: "address \<Rightarrow> int"
  getAddress :: "contract \<Rightarrow> sha3 \<Rightarrow> string + address"
  getString :: "contract \<Rightarrow> sha3 \<Rightarrow> string + string"
  decode_abi :: "string \<Rightarrow> string + abi"
  contract_factory :: "bool \<Rightarrow> pyval \<Rightarrow> abi \<Rightarrow> string option"
  bind_function :: "contract \<Rightarrow> string \<Rightarrow> pyval list \<Rightarrow> string option"
  call_function :: "bound_call \<Rightarrow> pyval \<Rightarrow> string + pyval"
  estimateGas :: "bound_call \<Rightarrow> int \<Rightarrow> pyval \<Rightarrow> string + int"
  eth_call :: "call_params \<Rightarrow> int \<Rightarrow> call_outcome"
  DepositEvent :: "contract \<Rightarrow> string + (log_entry \<Rightarrow> error + deposit_event)"

section \<open>The state of \<^verbatim>\<open>RocketPool\<close>\<close>

text \<open>
  The positional arguments of a call of \<^verbatim>\<open>assemble_contract\<close>, which are the key of
  \<^verbatim>\<open>CONTRACT_CACHE\<close> (\<^verbatim>\<open>cached\<close> hashes the arguments as they are passed):
  \<^verbatim>\<open>assemble_contract(name, address)\<close> and \<^verbatim>\<open>assemble_contract(name, address, mainnet)\<close>.
  The name is \<^verbatim>\<open>None\<close> when \<^verbatim>\<open>get_contract_by_address\<close> finds no name.
\<close>

datatype contract_args =
    Args2 "name option" pyval
  | Args3 "name option" pyval bool

fun args_name :: "contract_args \<Rightarrow> name option" where
  "args_name (Args2 name address) = name"
| "args_name (Args3 name address mainnet) = name"

fun args_address :: "contract_args \<Rightarrow> pyval" where
  "args_address (Args2 name address) = address"
| "args_address (Args3 name address mainnet) = address"

fun args_mainnet :: "contract_args \<Rightarrow> bool" where
  "args_mainnet (Args2 name address) = False"
| "args_mainnet (Args3 name address mainnet) = mainnet"

text \<open>The \<^verbatim>\<open>{name}\<close> of an f-string.\<close>

fun format_name :: "name option \<Rightarrow> string" where
  "format_name None = ''None''"
| "format_name (Some name) = name"

text \<open>
  The calls made on the storage contract are recorded in \<open>rpc_log\<close>, oldest first. The log
  is not a field of the Python object: it is there to count the on-chain lookups.
\<close>

datatype rpc = GetAddress sha3 | GetString sha3

record rocketpool =
  ADDRESS_CACHE :: "(name, address) fifo_cache"
  ABI_CACHE :: "(name option, abi) fifo_cache"
  CONTRACT_CACHE :: "(contract_args, contract) fifo_cache"
  addresses :: bidict
  multicall :: "multicall option"
  rpc_log :: "rpc list"

section \<open>\<^verbatim>\<open>flush\<close> and \<^verbatim>\<open>__init__\<close>\<close>

text \<open>The loop \<^verbatim>\<open>for name, address in ...items(): self.addresses[name] = address\<close>; an
  exception leaves the entries inserted so far.\<close>

fun seed_addresses :: "rocketpool \<Rightarrow> (name \<times> address) list \<Rightarrow> (error + unit) \<times> rocketpool" where
  "seed_addresses s [] = (Inr (), s)"
| "seed_addresses s ((name, address) # rest) =
     (case bidict_setitem (addresses s) name address of
        Inl e \<Rightarrow> (Inl e, s)
      | Inr b \<Rightarrow> seed_addresses (s\<lparr>addresses := b\<rparr>) rest)"

definition flush :: "world \<Rightarrow> rocketpool \<Rightarrow> (error + unit) \<times> rocketpool" where
  "flush w s =
     seed_addresses
       (s\<lparr>CONTRACT_CACHE := cache_clear (CONTRACT_CACHE s),
          ABI_CACHE := cache_clear (ABI_CACHE s),
          ADDRESS_CACHE := cache_clear (ADDRESS_CACHE s),
          addresses := bidict_empty,
          multicall := (case new_Multicall w of Inl err \<Rightarrow> None | Inr m \<Rightarrow> Some m)\<rparr>)
       (manual_addresses w)"

text \<open>The class attributes and \<^verbatim>\<open>__init__\<close>.\<close>

definition RocketPool :: "world \<Rightarrow> (error + unit) \<times> rocketpool" where
  "RocketPool w =
     flush w \<lparr>ADDRESS_CACHE = FIFOCache 2048, ABI_CACHE = FIFOCache 2048,
              CONTRACT_CACHE = FIFOCache 2048, addresses = bidict_empty,
              multicall = None, rpc_log = []\<rparr>"

section \<open>Resolution of addresses, ABIs and contracts\<close>

text \<open>
  The six methods below call each other, and nothing in the source bounds the nesting:
  resolving \<^verbatim>\<open>"rocketStorage"\<close> when it is not a manual address asks the storage contract,
  which is \<^verbatim>\<open>"rocketStorage"\<close>. The first argument is the number of nested calls the
  interpreter still allows; a call with none left raises \<^verbatim>\<open>RecursionError\<close>.
  Every function returns its result or exception together with the state it leaves.
  The three \<^verbatim>\<open>@cached\<close> methods contain the wrapper: look the key up, on a miss run the
  body and store its result; an exception of the body stores nothing.
\<close>

text \<open>
  The storage slots \<^verbatim>\<open>w3.soliditySha3(["string", "string"], ["contract.address", name])\<close> and
  \<^verbatim>\<open>w3.soliditySha3(["string", "string"], ["contract.abi", name])\<close>, and the path
  \<^verbatim>\<open>f"./contracts/{name}.abi.json"\<close> of a local ABI file.
\<close>

definition address_slot :: "name \<Rightarrow> sha3" where
  "address_slot name = SoliditySha3 [''string'', ''string''] [''contract.address'', name]"

definition abi_slot :: "name \<Rightarrow> sha3" where
  "abi_slot name = SoliditySha3 [''string'', ''string''] [''contract.abi'', name]"

definition abi_path :: "name option \<Rightarrow> string" where
  "abi_path name = ''./contracts/'' @ format_name name @ ''.abi.json''"

function (sequential) get_address_by_name :: "nat \<Rightarrow> world \<Rightarrow> rocketpool \<Rightarrow> name \<Rightarrow> (error + address) \<times> rocketpool"
  and uncached_get_address_by_name :: "nat \<Rightarrow> world \<Rightarrow> rocketpool \<Rightarrow> name \<Rightarrow> (error + address) \<times> rocketpool"
  and get_abi_by_name :: "nat \<Rightarrow> world \<Rightarrow> rocketpool \<Rightarrow> name option \<Rightarrow> (error + abi) \<times> rocketpool"
  and uncached_get_abi_by_name :: "nat \<Rightarrow> world \<Rightarrow> rocketpool \<Rightarrow> name option \<Rightarrow> (error + abi) \<times> rocketpool"
  and assemble_contract :: "nat \<Rightarrow> world \<Rightarrow> rocketpool \<Rightarrow> contract_args \<Rightarrow> (error + contract) \<times> rocketpool"
  and get_contract_by_name :: "nat \<Rightarrow> world \<Rightarrow> rocketpool \<Rightarrow> name \<Rightarrow> (error + contract) \<times> rocketpool"
where
  "get_address_by_name 0 w s name = (Inl RecursionError, s)"
| "get_address_by_name (Suc d) w s name =
     (case cache_getitem (ADDRESS_CACHE s) name of
        Some v \<Rightarrow> (Inr v, s)
      | None \<Rightarrow>
          (case (case fwdm (addresses s) name of
                   Some address \<Rightarrow> (Inr address, s)
                 | None \<Rightarrow> uncached_get_address_by_name d w s name) of
             (Inl e, s1) \<Rightarrow> (Inl e, s1)
           | (Inr v, s1) \<Rightarrow>
               (Inr v, s1\<lparr>ADDRESS_CACHE := cached_store (ADDRESS_CACHE s1) name v\<rparr>)))"
| "uncached_get_address_by_name 0 w s name = (Inl RecursionError, s)"
| "uncached_get_address_by_name (Suc d) w s name =
     (case get_contract_by_name d w s ''rocketStorage'' of
        (Inl e, s1) \<Rightarrow> (Inl e, s1)
      | (Inr storage, s1) \<Rightarrow>
          (case getAddress w storage
                  (address_slot name) of
             Inl msg \<Rightarrow>
               (Inl (External msg),
                s1\<lparr>rpc_log := rpc_log s1 @
                  [GetAddress (address_slot name)]\<rparr>)
           | Inr address \<Rightarrow>
               if toInt w address = 0
               then (Inl (NoAddressFound name),
                     s1\<lparr>rpc_log := rpc_log s1 @
                       [GetAddress (address_slot name)]\<rparr>)
               else (case bidict_setitem (addresses s1) name address of
                       Inl e \<Rightarrow>
                         (Inl e,
                          s1\<lparr>rpc_log := rpc_log s1 @
                            [GetAddress (address_slot name)]\<rparr>)
                     | Inr b \<Rightarrow>
                         (Inr address,
                          s1\<lparr>rpc_log := rpc_log s1 @
                            [GetAddress (address_slot name)],
                             addresses := b\<rparr>))))"
| "get_abi_by_name 0 w s name = (Inl RecursionError, s)"
| "get_abi_by_name (Suc d) w s name =
     (case cache_getitem (ABI_CACHE s) name of
        Some v \<Rightarrow> (Inr v, s)
      | None \<Rightarrow>
          (case uncached_get_abi_by_name d w s name of
             (Inl e, s1) \<Rightarrow> (Inl e, s1)
           | (Inr v, s1) \<Rightarrow> (Inr v, s1\<lparr>ABI_CACHE := cached_store (ABI_CACHE s1) name v\<rparr>)))"
| "uncached_get_abi_by_name 0 w s name = (Inl RecursionError, s)"
| "uncached_get_abi_by_name (Suc d) w s None = (Inl TypeError, s)"
| "uncached_get_abi_by_name (Suc d) w s (Some name) =
     (case get_contract_by_name d w s ''rocketStorage'' of
        (Inl e, s1) \<Rightarrow> (Inl e, s1)
      | (Inr storage, s1) \<Rightarrow>
          (case getString w storage
                  (abi_slot name) of
             Inl msg \<Rightarrow>
               (Inl (External msg),
                s1\<lparr>rpc_log := rpc_log s1 @
                  [GetString (abi_slot name)]\<rparr>)
           | Inr compressed_string \<Rightarrow>
               if compressed_string = []
               then (Inl (NoAbiFound name),
                     s1\<lparr>rpc_log := rpc_log s1 @
                       [GetString (abi_slot name)]\<rparr>)
               else (case decode_abi w compressed_string of
                       Inl msg \<Rightarrow>
                         (Inl (External msg),
                          s1\<lparr>rpc_log := rpc_log s1 @
                            [GetString (abi_slot name)]\<rparr>)
                     | Inr abi \<Rightarrow>
                         (Inr abi,
                          s1\<lparr>rpc_log := rpc_log s1 @
                            [GetString (abi_slot name)]\<rparr>))))"
| "assemble_contract 0 w s args = (Inl RecursionError, s)"
| "assemble_contract (Suc d) w s args =
     (case cache_getitem (CONTRACT_CACHE s) args of
        Some c \<Rightarrow> (Inr c, s)
      | None \<Rightarrow>
          (case (case abi_files w (abi_path (args_name args)) of
                   None \<Rightarrow> get_abi_by_name d w s (args_name args)
                 | Some text \<Rightarrow>
                     if text = [] then get_abi_by_name d w s (args_name args)
                     else (Inr text, s)) of
             (Inl e, s1) \<Rightarrow> (Inl e, s1)
           | (Inr abi, s1) \<Rightarrow>
               (case contract_factory w (args_mainnet args) (args_address args) abi of
                  Some msg \<Rightarrow> (Inl (External msg), s1)
                | None \<Rightarrow>
                    (Inr \<lparr>c_address = args_address args, c_abi = abi,
                          c_mainnet = args_mainnet args\<rparr>,
                     s1\<lparr>CONTRACT_CACHE :=
                          cached_store (CONTRACT_CACHE s1) args
                            \<lparr>c_address = args_address args, c_abi = abi,
                             c_mainnet = args_mainnet args\<rparr>\<rparr>))))"
| "get_contract_by_name 0 w s name = (Inl RecursionError, s)"
| "get_contract_by_name (Suc d) w s name =
     (case get_address_by_name d w s name of
        (Inl e, s1) \<Rightarrow> (Inl e, s1)
      | (Inr address, s1) \<Rightarrow> assemble_contract d w s1 (Args2 (Some name) (PStr address)))"
  by pat_completeness auto

termination
  by (relation "measure (\<lambda>x. case x of
          Inl (Inl (d, _)) \<Rightarrow> d
        | Inl (Inr (Inl (d, _))) \<Rightarrow> d
        | Inl (Inr (Inr (d, _))) \<Rightarrow> d
        | Inr (Inl (d, _)) \<Rightarrow> d
        | Inr (Inr (Inl (d, _))) \<Rightarrow> d
        | Inr (Inr (Inr (d, _))) \<Rightarrow> d)") simp_all

text \<open>\<^verbatim>\<open>self.addresses.inverse.get(address, None)\<close>.\<close>

definition get_name_by_address :: "rocketpool \<Rightarrow> address \<Rightarrow> name option" where
  "get_name_by_address s address = invm (addresses s) address"

definition get_contract_by_address ::
  "nat \<Rightarrow> world \<Rightarrow> rocketpool \<Rightarrow> address \<Rightarrow> (error + contract) \<times> rocketpool" where
  "get_contract_by_address d w s address =
     assemble_contract d w s (Args2 (get_name_by_address s address) (PStr address))"

section \<open>Calls by path\<close>

text \<open>\<^verbatim>\<open>path.split(sep)\<close> for a one-character separator: the pieces between the
  separators, empty pieces included.\<close>

fun split :: "string \<Rightarrow> char \<Rightarrow> string list" where
  "split [] sep = [[]]"
| "split (c # cs) sep =
     (if c = sep then [] # split cs sep
      else (case split cs sep of
              [] \<Rightarrow> [[c]]
            | part # parts \<Rightarrow> (c # part) # parts))"

text \<open>
  \<^verbatim>\<open>parts = path.split("."); if len(parts) != 2: raise ...; name, function = parts\<close> is the
  match on a list of two elements. A bound function is returned as it is; binding may
  fail in the chain client. The methods from here on are not part of the cycle above:
  they hand the bound on nesting they are given to the calls they make.
\<close>

definition estimate_gas_for_call ::
  "nat \<Rightarrow> world \<Rightarrow> rocketpool \<Rightarrow> string \<Rightarrow> pyval list \<Rightarrow> pyval \<Rightarrow> (error + int) \<times> rocketpool" where
  "estimate_gas_for_call d w s path args block =
     (case split path CHR ''.'' of
        [name, function] \<Rightarrow>
          (case get_contract_by_name d w s name of
             (Inl e, s1) \<Rightarrow> (Inl e, s1)
           | (Inr contract, s1) \<Rightarrow>
               (case bind_function w contract function args of
                  Some msg \<Rightarrow> (Inl (External msg), s1)
                | None \<Rightarrow>
                    (case estimateGas w
                            \<lparr>bc_contract = contract, bc_function = function, bc_args = args\<rparr>
                            (2 ^ 32) block of
                       Inl msg \<Rightarrow> (Inl (External msg), s1)
                     | Inr gas \<Rightarrow> (Inr gas, s1))))
      | parts \<Rightarrow> (Inl (InvalidPartCount (length parts)), s))"

definition get_function ::
  "nat \<Rightarrow> world \<Rightarrow> rocketpool \<Rightarrow> string \<Rightarrow> pyval list \<Rightarrow> pyval \<Rightarrow> bool
     \<Rightarrow> (error + bound_call) \<times> rocketpool" where
  "get_function d w s path args address mainnet =
     (case split path CHR ''.'' of
        [name, function] \<Rightarrow>
          (case (if \<not> truthy address
                 then (case get_address_by_name d w s name of
                         (Inl e, s1) \<Rightarrow> (Inl e, s1)
                       | (Inr a, s1) \<Rightarrow> (Inr (PStr a), s1))
                 else (Inr address, s)) of
             (Inl e, s1) \<Rightarrow> (Inl e, s1)
           | (Inr address', s1) \<Rightarrow>
               (case assemble_contract d w s1 (Args3 (Some name) address' mainnet) of
                  (Inl e, s2) \<Rightarrow> (Inl e, s2)
                | (Inr contract, s2) \<Rightarrow>
                    (case bind_function w contract function args of
                       Some msg \<Rightarrow> (Inl (External msg), s2)
                     | None \<Rightarrow>
                         (Inr \<lparr>bc_contract = contract, bc_function = function, bc_args = args\<rparr>,
                          s2))))
      | parts \<Rightarrow> (Inl (InvalidPartCount (length parts)), s))"

definition call ::
  "nat \<Rightarrow> world \<Rightarrow> rocketpool \<Rightarrow> string \<Rightarrow> pyval list \<Rightarrow> pyval \<Rightarrow> pyval \<Rightarrow> bool
     \<Rightarrow> (error + pyval) \<times> rocketpool" where
  "call d w s path args block address mainnet =
     (case get_function d w s path args address mainnet of
        (Inl e, s1) \<Rightarrow> (Inl e, s1)
      | (Inr f, s1) \<Rightarrow>
          (case call_function w f block of
             Inl msg \<Rightarrow> (Inl (External msg), s1)
           | Inr result \<Rightarrow> (Inr result, s1)))"

section \<open>Revert reasons and deposit events\<close>

text \<open>\<^verbatim>\<open>sep.join(strings)\<close>.\<close>

fun join :: "string \<Rightarrow> string list \<Rightarrow> string" where
  "join sep [] = []"
| "join sep [x] = x"
| "join sep (x # y # ys) = x @ sep @ join sep (y # ys)"

text \<open>
  \<^verbatim>\<open>sep.join(err.args)\<close> takes strings only: an item that is not a string raises
  \<^verbatim>\<open>TypeError\<close>. \<open>strings\<close> gives the items when all of them are strings.
\<close>

fun strings :: "pyval list \<Rightarrow> string list option" where
  "strings [] = Some []"
| "strings (PStr s # xs) = (case strings xs of None \<Rightarrow> None | Some ss \<Rightarrow> Some (s # ss))"
| "strings (x # xs) = None"

text \<open>
  The body of the \<^verbatim>\<open>try\<close>: \<^verbatim>\<open>w3.eth.call\<close> on the parameters taken from the transaction,
  with \<^verbatim>\<open>block_identifier=tnx.blockNumber\<close>.
\<close>

definition replay :: "world \<Rightarrow> tnx \<Rightarrow> call_outcome" where
  "replay w tnx =
     eth_call w
       \<lparr>cp_from = tx_from tnx, cp_to = tx_to tnx, cp_data = tx_input tnx, cp_gas = tx_gas tnx,
        cp_gasPrice = tx_gasPrice tnx, cp_value = tx_value tnx\<rparr>
       (tx_blockNumber tnx)"

text \<open>
  \<^verbatim>\<open>get_revert_reason\<close> changes no state. The \<^verbatim>\<open>except ContractLogicError\<close> clause comes
  first and joins \<^verbatim>\<open>err.args\<close>. Then comes \<^verbatim>\<open>except ValueError\<close> with its \<^verbatim>\<open>match\<close> on
  \<^verbatim>\<open>err.args[0]["code"]\<close>: no argument is an \<^verbatim>\<open>IndexError\<close>, a first argument that is not a
  dictionary a \<^verbatim>\<open>TypeError\<close>, a dictionary without the key a \<^verbatim>\<open>KeyError\<close>. The \<^verbatim>\<open>else\<close>
  clause returns \<^verbatim>\<open>None\<close>; any other exception propagates.
\<close>

definition get_revert_reason :: "world \<Rightarrow> tnx \<Rightarrow> error + string option" where
  "get_revert_reason w tnx =
     (case replay w tnx of
        ContractLogicError err_args \<Rightarrow>
          (case strings err_args of
             None \<Rightarrow> Inl TypeError
           | Some messages \<Rightarrow> Inr (Some (join '', '' messages)))
      | ValueError err_args \<Rightarrow>
          (case err_args of
             [] \<Rightarrow> Inl IndexError
           | Value v # _ \<Rightarrow> Inl TypeError
           | Dict d # _ \<Rightarrow>
               (case d ''code'' of
                  None \<Rightarrow> Inl (KeyError ''code'')
                | Some code \<Rightarrow>
                    if code = PInt (- 32000) then Inr (Some ''Out of gas'')
                    else Inr (Some ''Hidden Error'')))
      | OtherError msg \<Rightarrow> Inl (External msg)
      | Returned result \<Rightarrow> Inr None)"

text \<open>
  \<^verbatim>\<open>processReceipt(receipt)\<close> of the chain client, under its default policy \<^verbatim>\<open>WARN\<close>. The
  entries are decoded in the order of the receipt, all of them. An entry whose decoding
  raises \<^verbatim>\<open>MismatchedABI\<close>, \<^verbatim>\<open>LogTopicError\<close>, \<^verbatim>\<open>InvalidEventABI\<close> or \<^verbatim>\<open>TypeError\<close> is left
  out and a warning is issued; any other exception of the decoding propagates. The result
  is the decoded events and the warnings.
\<close>

fun caught :: "error \<Rightarrow> bool" where
  "caught MismatchedABI = True"
| "caught LogTopicError = True"
| "caught InvalidEventABI = True"
| "caught TypeError = True"
| "caught e = False"

fun processReceipt ::
  "(log_entry \<Rightarrow> error + deposit_event) \<Rightarrow> receipt
     \<Rightarrow> error + deposit_event list \<times> error list" where
  "processReceipt decode [] = Inr ([], [])"
| "processReceipt decode (entry # entries) =
     (case decode entry of
        Inl e \<Rightarrow>
          if caught e
          then (case processReceipt decode entries of
                  Inl e' \<Rightarrow> Inl e'
                | Inr (events, warnings) \<Rightarrow> Inr (events, e # warnings))
          else Inl e
      | Inr event \<Rightarrow>
          (case processReceipt decode entries of
             Inl e' \<Rightarrow> Inl e'
           | Inr (events, warnings) \<Rightarrow> Inr (event # events, warnings)))"

text \<open>\<^verbatim>\<open>bytes.hex()\<close>: two lower-case hexadecimal digits for every byte.\<close>

definition hex_digit :: "nat \<Rightarrow> char" where
  "hex_digit n = ''0123456789abcdef'' ! (n mod 16)"

fun hex :: "bytes \<Rightarrow> string" where
  "hex [] = []"
| "hex (b # bs) = hex_digit (unat b div 16) # hex_digit (unat b mod 16) # hex bs"

text \<open>
  \<^verbatim>\<open>get_pubkey_using_transaction\<close>: the warnings of \<^verbatim>\<open>processReceipt\<close> are issued inside
  \<^verbatim>\<open>warnings.catch_warnings()\<close> with the filter \<^verbatim>\<open>"ignore"\<close>, so only the events are kept;
  an exception of \<^verbatim>\<open>processReceipt\<close> is not a warning and propagates.
  The function ends without \<^verbatim>\<open>return\<close> when there is no event: it returns \<^verbatim>\<open>None\<close>.
\<close>

definition get_pubkey_using_transaction ::
  "nat \<Rightarrow> world \<Rightarrow> rocketpool \<Rightarrow> receipt \<Rightarrow> (error + string option) \<times> rocketpool" where
  "get_pubkey_using_transaction d w s receipt =
     (case get_contract_by_name d w s ''casperDeposit'' of
        (Inl e, s1) \<Rightarrow> (Inl e, s1)
      | (Inr contract, s1) \<Rightarrow>
          (case DepositEvent w contract of
             Inl msg \<Rightarrow> (Inl (External msg), s1)
           | Inr decode \<Rightarrow>
               (case processReceipt decode receipt of
                  Inl e \<Rightarrow> (Inl e, s1)
                | Inr (processed_logs, warnings) \<Rightarrow>
                    (case processed_logs of
                       [] \<Rightarrow> (Inr None, s1)
                     | deposit_event # _ \<Rightarrow>
                         (Inr (Some (hex (pubkey deposit_event))), s1)))))"

section \<open>Runs of operations, and what is stated about them\<close>

text \<open>
  The methods a caller uses between two flushes. (The remaining methods of the class,
  \<^verbatim>\<open>get_annual_rpl_inflation\<close>, \<^verbatim>\<open>get_percentage_rpl_swapped\<close>, \<^verbatim>\<open>get_minipools_by_type\<close>,
  \<^verbatim>\<open>get_minipools\<close>, \<^verbatim>\<open>get_dai_eth_price\<close> and \<^verbatim>\<open>get_minipool_count_per_status\<close>, touch the
  state only through \<^verbatim>\<open>call\<close>; the two \<^verbatim>\<open>uncached_...\<close> methods are the bodies behind the
  cached ones and are reached through them.) Every operation may meet a different world.
\<close>

datatype op =
    Get_address_by_name name
  | Get_revert_reason tnx
  | Get_abi_by_name "name option"
  | Assemble_contract contract_args
  | Get_name_by_address address
  | Get_contract_by_name name
  | Get_contract_by_address address
  | Estimate_gas_for_call string "pyval list" pyval
  | Get_function string "pyval list" pyval bool
  | Call string "pyval list" pyval pyval bool
  | Get_pubkey_using_transaction receipt

fun perform :: "nat \<Rightarrow> world \<Rightarrow> rocketpool \<Rightarrow> op \<Rightarrow> rocketpool" where
  "perform d w s (Get_address_by_name name) = snd (get_address_by_name d w s name)"
| "perform d w s (Get_revert_reason tnx) = s"
| "perform d w s (Get_abi_by_name name) = snd (get_abi_by_name d w s name)"
| "perform d w s (Assemble_contract args) = snd (assemble_contract d w s args)"
| "perform d w s (Get_name_by_address address) = s"
| "perform d w s (Get_contract_by_name name) = snd (get_contract_by_name d w s name)"
| "perform d w s (Get_contract_by_address address) = snd (get_contract_by_address d w s address)"
| "perform d w s (Estimate_gas_for_call path args block) =
     snd (estimate_gas_for_call d w s path args block)"
| "perform d w s (Get_function path args address mainnet) =
     snd (get_function d w s path args address mainnet)"
| "perform d w s (Call path args block address mainnet) =
     snd (call d w s path args block address mainnet)"
| "perform d w s (Get_pubkey_using_transaction receipt) =
     snd (get_pubkey_using_transaction d w s receipt)"

fun perform_all :: "nat \<Rightarrow> rocketpool \<Rightarrow> (world \<times> op) list \<Rightarrow> rocketpool" where
  "perform_all d s [] = s"
| "perform_all d s ((w, x) # rest) = perform_all d (perform d w s x) rest"

text \<open>The number of on-chain address lookups made for a name so far.\<close>

definition address_lookups :: "rocketpool \<Rightarrow> name \<Rightarrow> nat" where
  "address_lookups s name = count_list (rpc_log s) (GetAddress (address_slot name))"

text \<open>
  The invariant of the state: the registry is a bijection, and every entry of the
  address cache is an entry of the registry.
\<close>

definition cache_agrees :: "rocketpool \<Rightarrow> bool" where
  "cache_agrees s =
     (\<forall>(n, a) \<in> set (items (ADDRESS_CACHE s)). fwdm (addresses s) n = Some a)"

definition invariant :: "rocketpool \<Rightarrow> bool" where
  "invariant s = (bijective (addresses s) \<and> cache_agrees s)"

text \<open>
  How a call may change the state. A \<open>quiet\<close> call keeps the invariant, the registry and
  the number of address lookups of every name. A call that \<open>resolves\<close> a name is quiet,
  or it found the name missing from the registry, made exactly one address lookup, for
  that name, and left the registry as it was or with that one name added.
\<close>

definition quiet :: "rocketpool \<Rightarrow> rocketpool \<Rightarrow> bool" where
  "quiet s s' =
     (invariant s' \<and> addresses s' = addresses s
      \<and> (\<forall>n. address_lookups s' n = address_lookups s n))"

definition resolves :: "name \<Rightarrow> rocketpool \<Rightarrow> rocketpool \<Rightarrow> bool" where
  "resolves name s s' =
     (invariant s' \<and>
      ((addresses s' = addresses s \<and> (\<forall>n. address_lookups s' n = address_lookups s n))
       \<or> (fwdm (addresses s) name = None
           \<and> (\<forall>n. address_lookups s' n =
                    (if n = name then Suc (address_lookups s name) else address_lookups s n))
           \<and> (addresses s' = addresses s
                \<or> (\<exists>a. fwdm (addresses s') = (fwdm (addresses s))(name \<mapsto> a))))))"

text \<open>The states the program can be in: after construction, after a flush (completed
  or not), after an operation.\<close>

inductive reachable :: "rocketpool \<Rightarrow> bool" where
  init: "reachable (snd (RocketPool w))"
| flushed: "reachable s \<Longrightarrow> reachable (snd (flush w s))"
| performed: "reachable s \<Longrightarrow> reachable (perform d w s x)"

section \<open>Examples\<close>

definition registry_a :: bidict where
  "registry_a = \<lparr>fwdm = [''a'' \<mapsto> ''0x01''], invm = [''0x01'' \<mapsto> ''a'']\<rparr>"

definition example_world :: world where
  "example_world =
     \<lparr>manual_addresses = [(''rocketStorage'', ''0x01'')],
      new_Multicall = Inr Multicall,
      abi_files = [abi_path (Some ''rocketStorage'') \<mapsto> ''[storage]'',
                   abi_path (Some ''rocketDepositPool'') \<mapsto> ''''],
      toInt = (\<lambda>a. if a = ''0x00'' then 0 else 1),
      getAddress = (\<lambda>c slot.
         if slot = address_slot ''rocketTokenRPL'' then Inr ''0x02''
         else if slot = address_slot ''casperDeposit'' then Inr ''0x03''
         else Inr ''0x00''),
      getString = (\<lambda>c slot. if slot = abi_slot ''unknownContract'' then Inr '''' else Inr ''eJw=''),
      decode_abi = (\<lambda>z. Inr ''[abi]''),
      contract_factory = (\<lambda>m a abi. None),
      bind_function = (\<lambda>c f args. if f = [] then Some ''ABIFunctionNotFound'' else None),
      call_function = (\<lambda>f block. Inr PNone),
      estimateGas = (\<lambda>f gas block. Inr 21000),
      eth_call = (\<lambda>p block.
         if cp_gas p = 0 then ValueError [Dict [''code'' \<mapsto> PInt (- 32000)]]
         else if cp_gas p = 1 then ValueError [Dict [''code'' \<mapsto> PInt 3]]
         else if cp_gas p = 2 then ContractLogicError [PStr ''Insufficient balance'']
         else if cp_gas p = 4
           then ContractLogicError [PStr ''execution reverted'', PStr ''Insufficient balance'']
         else Returned []),
      DepositEvent = (\<lambda>c. Inr (\<lambda>entry.
         if fst entry = [[0x64]]
         then (if snd entry = [] then Inl (External ''InsufficientDataBytes'')
               else Inr \<lparr>pubkey = snd entry\<rparr>)
         else Inl MismatchedABI))\<rparr>"

definition example_state :: rocketpool where
  "example_state = snd (RocketPool example_world)"

definition used_state :: rocketpool where
  "used_state =
     snd (get_contract_by_name (Suc (Suc (Suc (Suc (Suc (Suc (Suc 0))))))) example_world
            example_state ''rocketTokenRPL'')"

definition flushed_state :: rocketpool where
  "flushed_state =
     example_state\<lparr>rpc_log := [GetAddress (address_slot ''rocketTokenRPL''),
                              GetString (abi_slot ''rocketTokenRPL'')]\<rparr>"

definition small_state :: rocketpool where
  "small_state = example_state\<lparr>ADDRESS_CACHE := FIFOCache 1\<rparr>"

definition resolved_state :: rocketpool where
  "resolved_state =
     snd (get_address_by_name (Suc (Suc (Suc (Suc 0)))) example_world small_state
            ''rocketTokenRPL'')"

definition first_state :: rocketpool where
  "first_state =
     snd (get_address_by_name (Suc (Suc (Suc (Suc 0)))) example_world example_state
            ''rocketTokenRPL'')"

definition example_tnx :: "int \<Rightarrow> tnx" where
  "example_tnx gas =
     \<lparr>tx_from = ''0xaa'', tx_to = ''0xbb'', tx_input = [], tx_gas = gas, tx_gasPrice = 1,
      tx_value = 0, tx_blockNumber = 100, tx_hash = [0x01]\<rparr>"

definition example_receipt :: receipt where
  "example_receipt = [([[0x01]], [0x00]), ([[0x64]], [0xab, 0x01]), ([[0x64]], [0xff])]"

definition truncated_receipt :: receipt where
  "truncated_receipt = [([[0x64]], [0xab, 0x01]), ([[0x64]], [])]"

section \<open>Properties of the registry\<close>

lemma bijective_fwd: "bijective b \<Longrightarrow> fwdm b n = Some a \<Longrightarrow> invm b a = Some n"
  unfolding bijective_def by blast

lemma bijective_inv: "bijective b \<Longrightarrow> invm b a = Some n \<Longrightarrow> fwdm b n = Some a"
  unfolding bijective_def by blast

lemma bijectiveI:
  "(\<And>n a. fwdm b n = Some a \<Longrightarrow> invm b a = Some n) \<Longrightarrow>
   (\<And>n a. invm b a = Some n \<Longrightarrow> fwdm b n = Some a) \<Longrightarrow> bijective b"
  unfolding bijective_def by blast

lemma bidict_empty_bijective: "bijective bidict_empty"
  by (simp add: bijective_def bidict_empty_def)

lemma bidict_setitem_fresh:
  "fwdm b key = None \<Longrightarrow> invm b val = None \<Longrightarrow>
   bidict_setitem b key val = Inr \<lparr>fwdm = (fwdm b)(key \<mapsto> val), invm = (invm b)(val \<mapsto> key)\<rparr>"
  by (simp add: bidict_setitem_def)

lemma bidict_setitem_replace:
  "fwdm b key = Some oldval \<Longrightarrow> invm b val = None \<Longrightarrow>
   bidict_setitem b key val =
     Inr \<lparr>fwdm = (fwdm b)(key \<mapsto> val), invm = ((invm b)(val \<mapsto> key))(oldval := None)\<rparr>"
  by (simp add: bidict_setitem_def)

lemma bidict_setitem_same:
  "invm b val = Some key \<Longrightarrow> fwdm b key = Some oldval \<Longrightarrow> bidict_setitem b key val = Inr b"
  by (simp add: bidict_setitem_def)

lemma bidict_setitem_dup_val:
  "invm b val = Some oldkey \<Longrightarrow> fwdm b key = None \<Longrightarrow>
   bidict_setitem b key val = Inl (ValueDuplicationError val)"
  by (simp add: bidict_setitem_def)

lemma bidict_setitem_dup_key_val:
  "invm b val = Some oldkey \<Longrightarrow> oldkey \<noteq> key \<Longrightarrow> fwdm b key = Some oldval \<Longrightarrow>
   bidict_setitem b key val = Inl (KeyAndValueDuplicationError key val)"
  by (simp add: bidict_setitem_def)

lemma bijective_fresh:
  assumes "bijective b" and "fwdm b key = None" and "invm b val = None"
  shows "bijective \<lparr>fwdm = (fwdm b)(key \<mapsto> val), invm = (invm b)(val \<mapsto> key)\<rparr>"
proof (rule bijectiveI)
  fix n a
  assume "fwdm \<lparr>fwdm = (fwdm b)(key \<mapsto> val), invm = (invm b)(val \<mapsto> key)\<rparr> n = Some a"
  then have f: "(n = key \<and> a = val) \<or> (n \<noteq> key \<and> fwdm b n = Some a)"
    by (simp split: if_splits)
  then show "invm \<lparr>fwdm = (fwdm b)(key \<mapsto> val), invm = (invm b)(val \<mapsto> key)\<rparr> a = Some n"
  proof
    assume "n = key \<and> a = val"
    then show ?thesis by simp
  next
    assume h: "n \<noteq> key \<and> fwdm b n = Some a"
    then have "invm b a = Some n" using assms(1) by (simp add: bijective_fwd)
    moreover from this assms(3) have "a \<noteq> val" by auto
    ultimately show ?thesis by simp
  qed
next
  fix n a
  assume "invm \<lparr>fwdm = (fwdm b)(key \<mapsto> val), invm = (invm b)(val \<mapsto> key)\<rparr> a = Some n"
  then have f: "(a = val \<and> n = key) \<or> (a \<noteq> val \<and> invm b a = Some n)"
    by (simp split: if_splits)
  then show "fwdm \<lparr>fwdm = (fwdm b)(key \<mapsto> val), invm = (invm b)(val \<mapsto> key)\<rparr> n = Some a"
  proof
    assume "a = val \<and> n = key"
    then show ?thesis by simp
  next
    assume h: "a \<noteq> val \<and> invm b a = Some n"
    then have "fwdm b n = Some a" using assms(1) by (simp add: bijective_inv)
    moreover from this assms(2) have "n \<noteq> key" by auto
    ultimately show ?thesis by simp
  qed
qed

lemma bijective_replace:
  assumes "bijective b" and "fwdm b key = Some oldval" and "invm b val = None"
  shows "bijective \<lparr>fwdm = (fwdm b)(key \<mapsto> val),
                     invm = ((invm b)(val \<mapsto> key))(oldval := None)\<rparr>"
proof -
  have neq: "oldval \<noteq> val"
    using assms by (auto dest: bijective_fwd)
  show ?thesis
  proof (rule bijectiveI)
    fix n a
    assume "fwdm \<lparr>fwdm = (fwdm b)(key \<mapsto> val),
                  invm = ((invm b)(val \<mapsto> key))(oldval := None)\<rparr> n = Some a"
    then have f: "(n = key \<and> a = val) \<or> (n \<noteq> key \<and> fwdm b n = Some a)"
      by (simp split: if_splits)
    then show "invm \<lparr>fwdm = (fwdm b)(key \<mapsto> val),
                     invm = ((invm b)(val \<mapsto> key))(oldval := None)\<rparr> a = Some n"
    proof
      assume "n = key \<and> a = val"
      then show ?thesis using neq by simp
    next
      assume h: "n \<noteq> key \<and> fwdm b n = Some a"
      then have i: "invm b a = Some n" using assms(1) by (simp add: bijective_fwd)
      from i assms(3) have "a \<noteq> val" by auto
      moreover from i h assms(1,2) have "a \<noteq> oldval" by (auto dest: bijective_fwd)
      ultimately show ?thesis using i by simp
    qed
  next
    fix n a
    assume "invm \<lparr>fwdm = (fwdm b)(key \<mapsto> val),
                  invm = ((invm b)(val \<mapsto> key))(oldval := None)\<rparr> a = Some n"
    then have f: "a \<noteq> oldval \<and> ((a = val \<and> n = key) \<or> (a \<noteq> val \<and> invm b a = Some n))"
      by (simp split: if_splits)
    show "fwdm \<lparr>fwdm = (fwdm b)(key \<mapsto> val),
                 invm = ((invm b)(val \<mapsto> key))(oldval := None)\<rparr> n = Some a"
    proof (cases "a = val")
      case True
      with f show ?thesis by simp
    next
      case False
      with f have i: "invm b a = Some n" and "a \<noteq> oldval" by simp_all
      then have g: "fwdm b n = Some a" using assms(1) by (simp add: bijective_inv)
      with assms(2) \<open>a \<noteq> oldval\<close> have "n \<noteq> key" by auto
      with g show ?thesis by simp
    qed
  qed
qed

lemma bidict_setitem_bijective:
  assumes "bijective b" and "bidict_setitem b key val = Inr b'"
  shows "bijective b'"
proof (cases "fwdm b key")
  case None
  note fk = this
  show ?thesis
  proof (cases "invm b val")
    case None
    with fk assms show ?thesis
      by (auto simp: bidict_setitem_fresh intro: bijective_fresh)
  next
    case (Some oldkey)
    with fk assms(2) show ?thesis
      by (simp add: bidict_setitem_dup_val)
  qed
next
  case (Some oldval)
  note fk = this
  show ?thesis
  proof (cases "invm b val")
    case None
    with fk assms show ?thesis
      by (auto simp: bidict_setitem_replace intro: bijective_replace)
  next
    case (Some oldkey)
    with fk assms show ?thesis
      by (cases "oldkey = key") (auto simp: bidict_setitem_same bidict_setitem_dup_key_val)
  qed
qed

text \<open>
  C1 (as the code has it). Let the registry be a bijection. If the address is registered
  under a different name, \<^verbatim>\<open>self.addresses[name] = address\<close> raises a duplication error and
  inserts nothing. Otherwise the insertion succeeds, the new registry is again a
  bijection, it maps the name to the address and the address back to the name, the
  address the name had before (if another one) no longer maps back to any name, and the
  entries of all other names are untouched.
\<close>

theorem bidict_setitem_overwrites:
  assumes "bijective b"
  shows "(\<forall>other. invm b address = Some other \<and> other \<noteq> name \<longrightarrow>
            bidict_setitem b name address = Inl (ValueDuplicationError address) \<or>
            bidict_setitem b name address = Inl (KeyAndValueDuplicationError name address))
       \<and> ((\<forall>other. invm b address = Some other \<longrightarrow> other = name) \<longrightarrow>
            (\<exists>b'. bidict_setitem b name address = Inr b' \<and> bijective b'
                \<and> fwdm b' name = Some address \<and> invm b' address = Some name
                \<and> (\<forall>old. fwdm b name = Some old \<and> old \<noteq> address \<longrightarrow> invm b' old = None)
                \<and> (\<forall>n. n \<noteq> name \<longrightarrow> fwdm b' n = fwdm b n)))"
proof (intro conjI allI impI)
  fix other
  assume h: "invm b address = Some other \<and> other \<noteq> name"
  show "bidict_setitem b name address = Inl (ValueDuplicationError address) \<or>
        bidict_setitem b name address = Inl (KeyAndValueDuplicationError name address)"
  proof (cases "fwdm b name")
    case None
    with h show ?thesis by (simp add: bidict_setitem_dup_val)
  next
    case (Some oldval)
    with h show ?thesis by (simp add: bidict_setitem_dup_key_val)
  qed
next
  assume own: "\<forall>other. invm b address = Some other \<longrightarrow> other = name"
  show "\<exists>b'. bidict_setitem b name address = Inr b' \<and> bijective b'
            \<and> fwdm b' name = Some address \<and> invm b' address = Some name
            \<and> (\<forall>old. fwdm b name = Some old \<and> old \<noteq> address \<longrightarrow> invm b' old = None)
            \<and> (\<forall>n. n \<noteq> name \<longrightarrow> fwdm b' n = fwdm b n)"
  proof (cases "invm b address")
    case None
    note ia = this
    show ?thesis
    proof (cases "fwdm b name")
      case None
      with ia assms show ?thesis
        by (simp add: bidict_setitem_fresh bijective_fresh)
    next
      case (Some oldval)
      with ia assms have "oldval \<noteq> address" by (auto dest: bijective_fwd)
      with Some ia assms show ?thesis
        by (simp add: bidict_setitem_replace bijective_replace)
    qed
  next
    case (Some other)
    with own have ia: "invm b address = Some name" by simp
    with assms have fa: "fwdm b name = Some address" by (simp add: bijective_inv)
    with ia assms show ?thesis
      by (simp add: bidict_setitem_same)
  qed
qed

text \<open>
  With \<^verbatim>\<open>"a"\<close> registered at \<^verbatim>\<open>"0x01"\<close>, registering \<^verbatim>\<open>"b"\<close> at the same address does not
  remove the entry of \<^verbatim>\<open>"a"\<close>: it raises \<^verbatim>\<open>ValueDuplicationError\<close>.
\<close>

theorem bidict_setitem_overwrites_counterexample:
  "bidict_setitem registry_a ''b'' ''0x01'' = Inl (ValueDuplicationError ''0x01'')"
  by (simp add: bidict_setitem_def registry_a_def)

lemma registry_a_bijective: "bijective registry_a"
  by (rule bijectiveI) (simp_all add: registry_a_def split: if_splits)

theorem bidict_setitem_overwrites_witness:
  "bijective registry_a
   \<and> (\<exists>b'. bidict_setitem registry_a ''a'' ''0x02'' = Inr b' \<and> bijective b'
          \<and> fwdm b' ''a'' = Some ''0x02'' \<and> invm b' ''0x02'' = Some ''a''
          \<and> invm b' ''0x01'' = None)
   \<and> invm registry_a ''0x01'' = Some ''a''
   \<and> bidict_setitem registry_a ''b'' ''0x01'' = Inl (ValueDuplicationError ''0x01'')"
proof -
  have own: "\<forall>other. invm registry_a ''0x02'' = Some other \<longrightarrow> other = ''a''"
    by (simp add: registry_a_def)
  have old: "fwdm registry_a ''a'' = Some ''0x01'' \<and> ''0x01'' \<noteq> ''0x02''"
    by (simp add: registry_a_def)
  have dup: "invm registry_a ''0x01'' = Some ''a'' \<and> ''a'' \<noteq> ''b''"
    by (simp add: registry_a_def)
  have nokv: "bidict_setitem registry_a ''b'' ''0x01''
                \<noteq> Inl (KeyAndValueDuplicationError ''b'' ''0x01'')"
    by (simp add: bidict_setitem_def registry_a_def)
  note ok = bidict_setitem_overwrites [OF registry_a_bijective, of "''0x02''" "''a''",
      THEN conjunct2, rule_format, OF own [rule_format]]
  note ko = bidict_setitem_overwrites [OF registry_a_bijective, of "''0x01''" "''b''",
      THEN conjunct1, rule_format, OF dup]
  from ok obtain b' where b': "bidict_setitem registry_a ''a'' ''0x02'' = Inr b'"
      "bijective b'" "fwdm b' ''a'' = Some ''0x02''" "invm b' ''0x02'' = Some ''a''"
      "\<forall>old. fwdm registry_a ''a'' = Some old \<and> old \<noteq> ''0x02'' \<longrightarrow> invm b' old = None"
    by blast
  from b'(5) old have "invm b' ''0x01'' = None" by blast
  with b'(1-4) have 1: "\<exists>b'. bidict_setitem registry_a ''a'' ''0x02'' = Inr b' \<and> bijective b'
          \<and> fwdm b' ''a'' = Some ''0x02'' \<and> invm b' ''0x02'' = Some ''a''
          \<and> invm b' ''0x01'' = None" by blast
  from ko nokv have 2: "bidict_setitem registry_a ''b'' ''0x01'' = Inl (ValueDuplicationError ''0x01'')"
    by blast
  from 1 2 dup registry_a_bijective show ?thesis by blast
qed

section \<open>The invariant and the resolver\<close>

lemma address_slot_inj [simp]: "(address_slot n = address_slot m) = (n = m)"
  by (simp add: address_slot_def)

lemma cache_agreesD:
  "cache_agrees s \<Longrightarrow> (n, a) \<in> set (items (ADDRESS_CACHE s)) \<Longrightarrow> fwdm (addresses s) n = Some a"
  by (auto simp: cache_agrees_def)

lemma cache_agreesI:
  "(\<And>n a. (n, a) \<in> set (items (ADDRESS_CACHE s)) \<Longrightarrow> fwdm (addresses s) n = Some a)
   \<Longrightarrow> cache_agrees s"
  by (auto simp: cache_agrees_def)

lemma cache_hit_registry:
  assumes "invariant s" and "cache_getitem (ADDRESS_CACHE s) n = Some a"
  shows "fwdm (addresses s) n = Some a"
proof -
  from assms(2) have "(n, a) \<in> set (items (ADDRESS_CACHE s))"
    by (simp add: cache_getitem_def map_of_SomeD)
  with assms(1) show ?thesis
    by (simp add: invariant_def cache_agreesD)
qed

lemma cached_store_items:
  "set (items (cached_store c k v)) \<subseteq> insert (k, v) (set (items c))"
  by (auto simp: cached_store_def cache_setitem_def dest: in_set_dropD)

lemma invariant_store:
  assumes "invariant s" and "fwdm (addresses s) n = Some a"
  shows "invariant (s\<lparr>ADDRESS_CACHE := cached_store (ADDRESS_CACHE s) n a\<rparr>)"
proof -
  have "cache_agrees (s\<lparr>ADDRESS_CACHE := cached_store (ADDRESS_CACHE s) n a\<rparr>)"
  proof (rule cache_agreesI)
    fix m b
    assume "(m, b) \<in> set (items (ADDRESS_CACHE (s\<lparr>ADDRESS_CACHE := cached_store (ADDRESS_CACHE s) n a\<rparr>)))"
    then have "(m, b) = (n, a) \<or> (m, b) \<in> set (items (ADDRESS_CACHE s))"
      using cached_store_items [of "ADDRESS_CACHE s" n a] by auto
    then show "fwdm (addresses (s\<lparr>ADDRESS_CACHE := cached_store (ADDRESS_CACHE s) n a\<rparr>)) m = Some b"
      using assms by (auto simp: invariant_def dest: cache_agreesD)
  qed
  with assms(1) show ?thesis by (simp add: invariant_def)
qed

lemma invariant_rpc_log [simp]: "invariant (s\<lparr>rpc_log := l\<rparr>) = invariant s"
  by (simp add: invariant_def cache_agrees_def)

lemma invariant_ABI_CACHE [simp]: "invariant (s\<lparr>ABI_CACHE := c\<rparr>) = invariant s"
  by (simp add: invariant_def cache_agrees_def)

lemma invariant_CONTRACT_CACHE [simp]: "invariant (s\<lparr>CONTRACT_CACHE := c\<rparr>) = invariant s"
  by (simp add: invariant_def cache_agrees_def)

lemma address_lookups_ABI_CACHE [simp]:
  "address_lookups (s\<lparr>ABI_CACHE := c\<rparr>) n = address_lookups s n"
  by (simp add: address_lookups_def)

lemma address_lookups_CONTRACT_CACHE [simp]:
  "address_lookups (s\<lparr>CONTRACT_CACHE := c\<rparr>) n = address_lookups s n"
  by (simp add: address_lookups_def)

lemma address_lookups_ADDRESS_CACHE [simp]:
  "address_lookups (s\<lparr>ADDRESS_CACHE := c\<rparr>) n = address_lookups s n"
  by (simp add: address_lookups_def)

lemma address_lookups_addresses [simp]:
  "address_lookups (s\<lparr>addresses := b\<rparr>) n = address_lookups s n"
  by (simp add: address_lookups_def)

lemma address_lookups_GetString [simp]:
  "address_lookups (s\<lparr>rpc_log := rpc_log s @ [GetString k]\<rparr>) n = address_lookups s n"
  by (simp add: address_lookups_def)

lemma address_lookups_GetAddress [simp]:
  "address_lookups (s\<lparr>rpc_log := rpc_log s @ [GetAddress (address_slot m)]\<rparr>) n =
     (if n = m then Suc (address_lookups s m) else address_lookups s n)"
  by (auto simp: address_lookups_def)

lemma invariant_insert:
  assumes "invariant s" and "fwdm (addresses s) name = None"
    and "bidict_setitem (addresses s) name a = Inr b"
  shows "invariant (s\<lparr>addresses := b\<rparr>)" and "fwdm b = (fwdm (addresses s))(name \<mapsto> a)"
proof -
  from assms(2,3) show fb: "fwdm b = (fwdm (addresses s))(name \<mapsto> a)"
    by (auto simp: bidict_setitem_def split: option.splits)
  from assms(1,3) have "bijective b"
    by (auto simp: invariant_def intro: bidict_setitem_bijective)
  moreover have "cache_agrees (s\<lparr>addresses := b\<rparr>)"
  proof (rule cache_agreesI)
    fix n a'
    assume "(n, a') \<in> set (items (ADDRESS_CACHE (s\<lparr>addresses := b\<rparr>)))"
    then have "(n, a') \<in> set (items (ADDRESS_CACHE s))" by simp
    with assms(1) have f: "fwdm (addresses s) n = Some a'"
      by (simp add: invariant_def cache_agreesD)
    with assms(2) have "n \<noteq> name" by auto
    with f fb show "fwdm (addresses (s\<lparr>addresses := b\<rparr>)) n = Some a'" by simp
  qed
  ultimately show "invariant (s\<lparr>addresses := b\<rparr>)"
    by (simp add: invariant_def)
qed

lemma storage_unresolved:
  assumes "invariant s" and "fwdm (addresses s) ''rocketStorage'' = None"
  shows "get_address_by_name d w s ''rocketStorage'' = (Inl RecursionError, s)
       \<and> uncached_get_address_by_name d w s ''rocketStorage'' = (Inl RecursionError, s)
       \<and> get_contract_by_name d w s ''rocketStorage'' = (Inl RecursionError, s)"
proof (induction d)
  case 0
  show ?case by simp
next
  case (Suc d)
  from assms have miss: "cache_getitem (ADDRESS_CACHE s) ''rocketStorage'' = None"
    using cache_hit_registry [of s "''rocketStorage''"] by (cases "cache_getitem (ADDRESS_CACHE s) ''rocketStorage''") auto
  from Suc miss assms(2) show ?case by simp
qed

lemma quiet_refl: "invariant s \<Longrightarrow> quiet s s"
  by (simp add: quiet_def)

lemma quiet_resolves: "quiet s s' \<Longrightarrow> resolves name s s'"
  by (simp add: quiet_def resolves_def)

lemma quiet_trans: "quiet s s1 \<Longrightarrow> quiet s1 s2 \<Longrightarrow> quiet s s2"
  by (simp add: quiet_def)

lemma resolves_then_quiet: "resolves name s s1 \<Longrightarrow> quiet s1 s2 \<Longrightarrow> resolves name s s2"
  by (auto simp: quiet_def resolves_def)

lemma quiet_then_resolves: "quiet s s1 \<Longrightarrow> resolves name s1 s2 \<Longrightarrow> resolves name s s2"
  by (auto simp: quiet_def resolves_def)

lemma quiet_invariant: "quiet s s' \<Longrightarrow> invariant s'"
  by (simp add: quiet_def)

lemma resolves_invariant: "resolves name s s' \<Longrightarrow> invariant s'"
  by (simp add: resolves_def)

lemma resolves_known:
  "resolves name s s' \<Longrightarrow> fwdm (addresses s) name = Some a \<Longrightarrow> quiet s s'"
  by (auto simp: quiet_def resolves_def)

lemma quiet_ABI_CACHE: "quiet s s1 \<Longrightarrow> quiet s (s1\<lparr>ABI_CACHE := c\<rparr>)"
  by (simp add: quiet_def)

lemma quiet_CONTRACT_CACHE: "quiet s s1 \<Longrightarrow> quiet s (s1\<lparr>CONTRACT_CACHE := c\<rparr>)"
  by (simp add: quiet_def)

lemma quiet_GetString:
  "quiet s s1 \<Longrightarrow> quiet s (s1\<lparr>rpc_log := rpc_log s1 @ [GetString k]\<rparr>)"
  by (simp add: quiet_def)

lemma resolves_store:
  "resolves name s s1 \<Longrightarrow> fwdm (addresses s1) n = Some a \<Longrightarrow>
   resolves name s (s1\<lparr>ADDRESS_CACHE := cached_store (ADDRESS_CACHE s1) n a\<rparr>)"
  using invariant_store [of s1 n a] by (simp add: resolves_def)

lemma quiet_lookup:
  assumes "quiet s s1" and "fwdm (addresses s) name = None"
  shows "resolves name s (s1\<lparr>rpc_log := rpc_log s1 @ [GetAddress (address_slot name)]\<rparr>)"
  using assms by (simp add: quiet_def resolves_def)

lemma quiet_lookup_insert:
  assumes "quiet s s1" and "fwdm (addresses s) name = None"
    and "bidict_setitem (addresses s1) name a = Inr b"
  shows "resolves name s
           (s1\<lparr>rpc_log := rpc_log s1 @ [GetAddress (address_slot name)], addresses := b\<rparr>)"
    and "fwdm b name = Some a"
proof -
  from assms(1) have inv1: "invariant s1" and same: "addresses s1 = addresses s"
    and looks: "\<And>n. address_lookups s1 n = address_lookups s n"
    by (simp_all add: quiet_def)
  from assms(2) same have none1: "fwdm (addresses s1) name = None" by simp
  note ins = invariant_insert [OF inv1 none1 assms(3)]
  from ins(2) show "fwdm b name = Some a" by simp
  from ins(1) have "invariant (s1\<lparr>rpc_log := rpc_log s1 @ [GetAddress (address_slot name)],
                                addresses := b\<rparr>)"
    by (simp add: invariant_def cache_agrees_def)
  moreover have "\<exists>a. fwdm b = (fwdm (addresses s))(name \<mapsto> a)"
    using ins(2) same by auto
  ultimately show "resolves name s
           (s1\<lparr>rpc_log := rpc_log s1 @ [GetAddress (address_slot name)], addresses := b\<rparr>)"
    using assms(2) looks by (simp add: resolves_def address_lookups_def)
qed

lemma storage_quiet:
  assumes gc: "\<And>w s name r s'. invariant s \<Longrightarrow> get_contract_by_name d w s name = (r, s')
                 \<Longrightarrow> resolves name s s'"
    and inv: "invariant s"
    and run: "get_contract_by_name d w s ''rocketStorage'' = (r, s1)"
  shows "quiet s s1"
proof (cases "fwdm (addresses s) ''rocketStorage''")
  case None
  with inv run storage_unresolved [of s d w] have "s1 = s" by simp
  with inv show ?thesis by (simp add: quiet_refl)
next
  case (Some a)
  from gc [OF inv run] Some show ?thesis by (rule resolves_known)
qed

lemma uncached_get_address_step:
  assumes gc: "\<And>w s name r s'. invariant s \<Longrightarrow> get_contract_by_name d w s name = (r, s')
                 \<Longrightarrow> resolves name s s'"
    and inv: "invariant s"
    and none: "fwdm (addresses s) name = None"
    and run: "uncached_get_address_by_name (Suc d) w s name = (r, s')"
  shows "resolves name s s'
       \<and> (\<forall>a. r = Inr a \<longrightarrow> fwdm (addresses s') name = Some a
                \<and> address_lookups s' name = Suc (address_lookups s name))"
proof -
  obtain r1 s1 where g: "get_contract_by_name d w s ''rocketStorage'' = (r1, s1)"
    by (cases "get_contract_by_name d w s ''rocketStorage''")
  have q: "quiet s s1" using gc inv g by (rule storage_quiet)
  then have looks: "address_lookups s1 name = address_lookups s name"
    by (simp add: quiet_def)
  note lookup = quiet_lookup [OF q none]
  show ?thesis
  proof (cases r1)
    case (Inl e)
    with run g have "r = Inl e" and "s' = s1" by simp_all
    with q show ?thesis by (simp add: quiet_resolves)
  next
    case (Inr storage)
    note r1 = this
    show ?thesis
    proof (cases "getAddress w storage (address_slot name)")
      case (Inl msg)
      with run g r1 lookup show ?thesis by auto
    next
      case (Inr address)
      note ga = this
      show ?thesis
      proof (cases "toInt w address = 0")
        case True
        with run g r1 ga lookup show ?thesis by auto
      next
        case False
        note nz = this
        show ?thesis
        proof (cases "bidict_setitem (addresses s1) name address")
          case (Inl e)
          with run g r1 ga nz lookup show ?thesis by auto
        next
          case (Inr b)
          note ins = quiet_lookup_insert [OF q none Inr]
          from run g r1 ga nz Inr have "r = Inr address" and
            "s' = s1\<lparr>rpc_log := rpc_log s1 @ [GetAddress (address_slot name)], addresses := b\<rparr>"
            by simp_all
          with ins looks show ?thesis by simp
        qed
      qed
    qed
  qed
qed

lemma get_address_step:
  assumes un: "\<And>w s name r s'. invariant s \<Longrightarrow> fwdm (addresses s) name = None
                 \<Longrightarrow> uncached_get_address_by_name d w s name = (r, s')
                 \<Longrightarrow> resolves name s s'
                     \<and> (\<forall>a. r = Inr a \<longrightarrow> fwdm (addresses s') name = Some a
                              \<and> address_lookups s' name = Suc (address_lookups s name))"
    and inv: "invariant s"
    and run: "get_address_by_name (Suc d) w s name = (r, s')"
  shows "resolves name s s' \<and> (\<forall>a. r = Inr a \<longrightarrow> fwdm (addresses s') name = Some a)"
proof (cases "cache_getitem (ADDRESS_CACHE s) name")
  case (Some v)
  with run have "r = Inr v" and "s' = s" by simp_all
  with inv Some show ?thesis
    by (simp add: quiet_refl quiet_resolves cache_hit_registry)
next
  case None
  note miss = this
  show ?thesis
  proof (cases "fwdm (addresses s) name")
    case (Some address)
    with run miss have "r = Inr address"
      and "s' = s\<lparr>ADDRESS_CACHE := cached_store (ADDRESS_CACHE s) name address\<rparr>"
      by simp_all
    with inv Some show ?thesis
      by (simp add: quiet_refl quiet_resolves resolves_store)
  next
    case None
    obtain r1 s1 where u: "uncached_get_address_by_name d w s name = (r1, s1)"
      by (cases "uncached_get_address_by_name d w s name")
    note step = un [OF inv None u]
    show ?thesis
    proof (cases r1)
      case (Inl e)
      with run miss None u have "r = Inl e" and "s' = s1" by simp_all
      with step show ?thesis by simp
    next
      case (Inr v)
      with run miss None u have "r = Inr v"
        and "s' = s1\<lparr>ADDRESS_CACHE := cached_store (ADDRESS_CACHE s1) name v\<rparr>"
        by simp_all
      with step Inr show ?thesis by (simp add: resolves_store)
    qed
  qed
qed

lemma uncached_get_abi_step:
  assumes gc: "\<And>w s name r s'. invariant s \<Longrightarrow> get_contract_by_name d w s name = (r, s')
                 \<Longrightarrow> resolves name s s'"
    and inv: "invariant s"
    and run: "uncached_get_abi_by_name (Suc d) w s name = (r, s')"
  shows "quiet s s'"
proof (cases name)
  case None
  with run inv show ?thesis by (simp add: quiet_refl)
next
  case (Some n)
  obtain r1 s1 where g: "get_contract_by_name d w s ''rocketStorage'' = (r1, s1)"
    by (cases "get_contract_by_name d w s ''rocketStorage''")
  have q: "quiet s s1" using gc inv g by (rule storage_quiet)
  note q' = quiet_GetString [OF q, of "abi_slot n"]
  from run Some g q q' show ?thesis
    by (auto split: sum.splits if_splits)
qed

lemma get_abi_step:
  assumes ub: "\<And>w s name r s'. invariant s \<Longrightarrow> uncached_get_abi_by_name d w s name = (r, s')
                 \<Longrightarrow> quiet s s'"
    and inv: "invariant s"
    and run: "get_abi_by_name (Suc d) w s name = (r, s')"
  shows "quiet s s'"
proof (cases "cache_getitem (ABI_CACHE s) name")
  case (Some v)
  with run inv show ?thesis by (simp add: quiet_refl)
next
  case None
  obtain r1 s1 where u: "uncached_get_abi_by_name d w s name = (r1, s1)"
    by (cases "uncached_get_abi_by_name d w s name")
  note q = ub [OF inv u]
  from run None u q show ?thesis
    by (cases r1) (auto simp: quiet_ABI_CACHE)
qed

lemma assemble_contract_step:
  assumes gb: "\<And>w s name r s'. invariant s \<Longrightarrow> get_abi_by_name d w s name = (r, s')
                 \<Longrightarrow> quiet s s'"
    and inv: "invariant s"
    and run: "assemble_contract (Suc d) w s args = (r, s')"
  shows "quiet s s'"
proof (cases "cache_getitem (CONTRACT_CACHE s) args")
  case (Some c)
  with run inv show ?thesis by (simp add: quiet_refl)
next
  case None
  obtain r1 s1 where a: "(case abi_files w (abi_path (args_name args)) of
                   None \<Rightarrow> get_abi_by_name d w s (args_name args)
                 | Some text \<Rightarrow>
                     if text = [] then get_abi_by_name d w s (args_name args)
                     else (Inr text, s)) = (r1, s1)"
    by (cases "(case abi_files w (abi_path (args_name args)) of
                   None \<Rightarrow> get_abi_by_name d w s (args_name args)
                 | Some text \<Rightarrow>
                     if text = [] then get_abi_by_name d w s (args_name args)
                     else (Inr text, s))")
  have q: "quiet s s1"
  proof (cases "abi_files w (abi_path (args_name args))")
    case None
    with a have "get_abi_by_name d w s (args_name args) = (r1, s1)" by simp
    with inv show ?thesis by (rule gb)
  next
    case (Some contents)
    show ?thesis
    proof (cases "contents = []")
      case True
      with a Some have "get_abi_by_name d w s (args_name args) = (r1, s1)" by simp
      with inv show ?thesis by (rule gb)
    next
      case False
      with a Some have "s1 = s" by simp
      with inv show ?thesis by (simp add: quiet_refl)
    qed
  qed
  from run None a have "s' = s1 \<or> (\<exists>c. s' = s1\<lparr>CONTRACT_CACHE := c\<rparr>)"
    by (cases r1) (auto split: option.splits)
  with q show ?thesis by (auto simp: quiet_CONTRACT_CACHE)
qed

lemma get_contract_step:
  assumes ga: "\<And>w s name r s'. invariant s \<Longrightarrow> get_address_by_name d w s name = (r, s')
                 \<Longrightarrow> resolves name s s' \<and> (\<forall>a. r = Inr a \<longrightarrow> fwdm (addresses s') name = Some a)"
    and ac: "\<And>w s args r s'. invariant s \<Longrightarrow> assemble_contract d w s args = (r, s')
                 \<Longrightarrow> quiet s s'"
    and inv: "invariant s"
    and run: "get_contract_by_name (Suc d) w s name = (r, s')"
  shows "resolves name s s'"
proof -
  obtain r1 s1 where g: "get_address_by_name d w s name = (r1, s1)"
    by (cases "get_address_by_name d w s name")
  from ga [OF inv g] have res: "resolves name s s1" by simp
  show ?thesis
  proof (cases r1)
    case (Inl e)
    with run g have "s' = s1" by simp
    with res show ?thesis by simp
  next
    case (Inr address)
    with run g have "assemble_contract d w s1 (Args2 (Some name) (PStr address)) = (r, s')"
      by simp
    with res have "quiet s1 s'" by (auto intro: ac resolves_invariant)
    with res show ?thesis by (rule resolves_then_quiet)
  qed
qed

lemma resolver_invariant:
  "(\<forall>w s name r s'. invariant s \<longrightarrow> get_address_by_name d w s name = (r, s') \<longrightarrow>
       resolves name s s' \<and> (\<forall>a. r = Inr a \<longrightarrow> fwdm (addresses s') name = Some a))
 \<and> (\<forall>w s name r s'. invariant s \<longrightarrow> fwdm (addresses s) name = None \<longrightarrow>
       uncached_get_address_by_name d w s name = (r, s') \<longrightarrow>
       resolves name s s'
       \<and> (\<forall>a. r = Inr a \<longrightarrow> fwdm (addresses s') name = Some a
                \<and> address_lookups s' name = Suc (address_lookups s name)))
 \<and> (\<forall>w s name r s'. invariant s \<longrightarrow> get_abi_by_name d w s name = (r, s') \<longrightarrow> quiet s s')
 \<and> (\<forall>w s name r s'. invariant s \<longrightarrow> uncached_get_abi_by_name d w s name = (r, s') \<longrightarrow> quiet s s')
 \<and> (\<forall>w s args r s'. invariant s \<longrightarrow> assemble_contract d w s args = (r, s') \<longrightarrow> quiet s s')
 \<and> (\<forall>w s name r s'. invariant s \<longrightarrow> get_contract_by_name d w s name = (r, s') \<longrightarrow>
       resolves name s s')"
proof (induction d)
  case 0
  show ?case by (simp add: quiet_refl quiet_resolves)
next
  case (Suc d)
  note ga = Suc [THEN conjunct1, rule_format]
  note un = Suc [THEN conjunct2, THEN conjunct1, rule_format]
  note gb = Suc [THEN conjunct2, THEN conjunct2, THEN conjunct1, rule_format]
  note ub = Suc [THEN conjunct2, THEN conjunct2, THEN conjunct2, THEN conjunct1, rule_format]
  note ac = Suc [THEN conjunct2, THEN conjunct2, THEN conjunct2, THEN conjunct2, THEN conjunct1,
      rule_format]
  note gc = Suc [THEN conjunct2, THEN conjunct2, THEN conjunct2, THEN conjunct2, THEN conjunct2,
      rule_format]
  have 1: "\<And>w s name r s'. invariant s \<Longrightarrow> get_address_by_name (Suc d) w s name = (r, s') \<Longrightarrow>
       resolves name s s' \<and> (\<forall>a. r = Inr a \<longrightarrow> fwdm (addresses s') name = Some a)"
    by (rule get_address_step [OF un])
  have 2: "\<And>w s name r s'. invariant s \<Longrightarrow> fwdm (addresses s) name = None \<Longrightarrow>
       uncached_get_address_by_name (Suc d) w s name = (r, s') \<Longrightarrow>
       resolves name s s'
       \<and> (\<forall>a. r = Inr a \<longrightarrow> fwdm (addresses s') name = Some a
                \<and> address_lookups s' name = Suc (address_lookups s name))"
    by (rule uncached_get_address_step [OF gc])
  have 3: "\<And>w s name r s'. invariant s \<Longrightarrow> get_abi_by_name (Suc d) w s name = (r, s') \<Longrightarrow> quiet s s'"
    by (rule get_abi_step [OF ub])
  have 4: "\<And>w s name r s'. invariant s \<Longrightarrow> uncached_get_abi_by_name (Suc d) w s name = (r, s')
       \<Longrightarrow> quiet s s'"
    by (rule uncached_get_abi_step [OF gc])
  have 5: "\<And>w s args r s'. invariant s \<Longrightarrow> assemble_contract (Suc d) w s args = (r, s')
       \<Longrightarrow> quiet s s'"
    by (rule assemble_contract_step [OF gb])
  have 6: "\<And>w s name r s'. invariant s \<Longrightarrow> get_contract_by_name (Suc d) w s name = (r, s')
       \<Longrightarrow> resolves name s s'"
    by (rule get_contract_step [OF ga ac])
  have c1: "\<forall>w s name r s'. invariant s \<longrightarrow> get_address_by_name (Suc d) w s name = (r, s') \<longrightarrow>
       resolves name s s' \<and> (\<forall>a. r = Inr a \<longrightarrow> fwdm (addresses s') name = Some a)"
    by (intro allI impI) (rule 1)
  have c2: "\<forall>w s name r s'. invariant s \<longrightarrow> fwdm (addresses s) name = None \<longrightarrow>
       uncached_get_address_by_name (Suc d) w s name = (r, s') \<longrightarrow>
       resolves name s s'
       \<and> (\<forall>a. r = Inr a \<longrightarrow> fwdm (addresses s') name = Some a
                \<and> address_lookups s' name = Suc (address_lookups s name))"
    by (intro allI impI) (rule 2)
  have c3: "\<forall>w s name r s'. invariant s \<longrightarrow> get_abi_by_name (Suc d) w s name = (r, s') \<longrightarrow> quiet s s'"
    by (intro allI impI) (rule 3)
  have c4: "\<forall>w s name r s'. invariant s \<longrightarrow> uncached_get_abi_by_name (Suc d) w s name = (r, s') \<longrightarrow> quiet s s'"
    by (intro allI impI) (rule 4)
  have c5: "\<forall>w s args r s'. invariant s \<longrightarrow> assemble_contract (Suc d) w s args = (r, s') \<longrightarrow> quiet s s'"
    by (intro allI impI) (rule 5)
  have c6: "\<forall>w s name r s'. invariant s \<longrightarrow> get_contract_by_name (Suc d) w s name = (r, s') \<longrightarrow>
       resolves name s s'"
    by (intro allI impI) (rule 6)
  show ?case
    by (rule conjI c1 c2 c3 c4 c5 c6)+
qed

section \<open>Evaluation of the examples\<close>

lemma abi_slot_inj [simp]: "(abi_slot n = abi_slot m) = (n = m)"
  by (simp add: abi_slot_def)

lemma example_state_eq:
  "example_state =
     \<lparr>ADDRESS_CACHE = FIFOCache 2048, ABI_CACHE = FIFOCache 2048, CONTRACT_CACHE = FIFOCache 2048,
      addresses = \<lparr>fwdm = [''rocketStorage'' \<mapsto> ''0x01''], invm = [''0x01'' \<mapsto> ''rocketStorage'']\<rparr>,
      multicall = Some Multicall, rpc_log = []\<rparr>"
  by (simp add: example_state_def RocketPool_def flush_def example_world_def cache_clear_def
      FIFOCache_def bidict_empty_def bidict_setitem_def)

lemmas example_simps =
  example_state_eq example_world_def FIFOCache_def cache_getitem_def cached_store_def
  cache_setitem_def abi_path_def bidict_setitem_def

section \<open>Revert reasons\<close>

lemma strings_PStr: "strings (map PStr messages) = Some messages"
  by (induction messages) simp_all

lemma join_concat:
  "join sep (m # ms) = m @ concat (map (\<lambda>x. sep @ x) ms)"
proof (induction ms arbitrary: m)
  case Nil
  show ?case by simp
next
  case (Cons y ys)
  from Cons [of y] show ?case by simp
qed

text \<open>
  C7. \<^verbatim>\<open>get_revert_reason\<close> replays the transaction: it calls \<^verbatim>\<open>w3.eth.call\<close> on the
  transaction's own sender, receiver, input, gas, gas price and value, at the
  transaction's block number. When the replay returns, the result is \<^verbatim>\<open>None\<close>. When it
  raises \<^verbatim>\<open>ContractLogicError\<close> with messages, the result is the messages in their order
  with \<^verbatim>\<open>", "\<close> between every two of them (no message gives the empty string, one message
  is returned as it is). When it raises another \<^verbatim>\<open>ValueError\<close> whose first argument has a
  code, the result is \<^verbatim>\<open>"Out of gas"\<close> for the code -32000 and \<^verbatim>\<open>"Hidden Error"\<close> for every
  other code.
\<close>

theorem get_revert_reason_decodes:
  "replay w tnx =
     eth_call w
       \<lparr>cp_from = tx_from tnx, cp_to = tx_to tnx, cp_data = tx_input tnx, cp_gas = tx_gas tnx,
        cp_gasPrice = tx_gasPrice tnx, cp_value = tx_value tnx\<rparr>
       (tx_blockNumber tnx)
 \<and> (replay w tnx = Returned result \<longrightarrow> get_revert_reason w tnx = Inr None)
 \<and> (replay w tnx = ContractLogicError [] \<longrightarrow> get_revert_reason w tnx = Inr (Some []))
 \<and> (replay w tnx = ContractLogicError (map PStr (message # messages)) \<longrightarrow>
       get_revert_reason w tnx
         = Inr (Some (message @ concat (map (\<lambda>x. '', '' @ x) messages))))
 \<and> (replay w tnx = ValueError (Dict e # rest) \<and> e ''code'' = Some (PInt (- 32000)) \<longrightarrow>
       get_revert_reason w tnx = Inr (Some ''Out of gas''))
 \<and> (replay w tnx = ValueError (Dict e # rest) \<and> e ''code'' = Some code
       \<and> code \<noteq> PInt (- 32000) \<longrightarrow>
       get_revert_reason w tnx = Inr (Some ''Hidden Error''))"
proof (intro conjI impI)
  show "replay w tnx =
     eth_call w
       \<lparr>cp_from = tx_from tnx, cp_to = tx_to tnx, cp_data = tx_input tnx, cp_gas = tx_gas tnx,
        cp_gasPrice = tx_gasPrice tnx, cp_value = tx_value tnx\<rparr>
       (tx_blockNumber tnx)"
    by (simp add: replay_def)
next
  assume "replay w tnx = Returned result"
  then show "get_revert_reason w tnx = Inr None"
    by (simp add: get_revert_reason_def)
next
  assume "replay w tnx = ContractLogicError []"
  then show "get_revert_reason w tnx = Inr (Some [])"
    by (simp add: get_revert_reason_def)
next
  assume r: "replay w tnx = ContractLogicError (map PStr (message # messages))"
  have "strings (map PStr (message # messages)) = Some (message # messages)"
    by (rule strings_PStr)
  with r have "get_revert_reason w tnx = Inr (Some (join '', '' (message # messages)))"
    by (simp only: get_revert_reason_def call_outcome.case option.case)
  then show "get_revert_reason w tnx
         = Inr (Some (message @ concat (map (\<lambda>x. '', '' @ x) messages)))"
    by (simp only: join_concat)
next
  assume "replay w tnx = ValueError (Dict e # rest) \<and> e ''code'' = Some (PInt (- 32000))"
  then show "get_revert_reason w tnx = Inr (Some ''Out of gas'')"
    by (simp add: get_revert_reason_def)
next
  assume "replay w tnx = ValueError (Dict e # rest) \<and> e ''code'' = Some code
       \<and> code \<noteq> PInt (- 32000)"
  then show "get_revert_reason w tnx = Inr (Some ''Hidden Error'')"
    by (simp add: get_revert_reason_def)
qed

theorem get_revert_reason_decodes_witness:
  "replay example_world (example_tnx 3) = Returned []
 \<and> get_revert_reason example_world (example_tnx 3) = Inr None
 \<and> replay example_world (example_tnx 2) = ContractLogicError (map PStr [''Insufficient balance''])
 \<and> get_revert_reason example_world (example_tnx 2) = Inr (Some ''Insufficient balance'')
 \<and> replay example_world (example_tnx 4)
     = ContractLogicError (map PStr [''execution reverted'', ''Insufficient balance''])
 \<and> get_revert_reason example_world (example_tnx 4)
     = Inr (Some ''execution reverted, Insufficient balance'')
 \<and> replay example_world (example_tnx 0) = ValueError [Dict [''code'' \<mapsto> PInt (- 32000)]]
 \<and> get_revert_reason example_world (example_tnx 0) = Inr (Some ''Out of gas'')
 \<and> replay example_world (example_tnx 1) = ValueError [Dict [''code'' \<mapsto> PInt 3]]
 \<and> PInt 3 \<noteq> PInt (- 32000)
 \<and> get_revert_reason example_world (example_tnx 1) = Inr (Some ''Hidden Error'')"
proof -
  have r: "replay example_world (example_tnx 3) = Returned []"
    by (simp add: replay_def example_world_def example_tnx_def)
  have l: "replay example_world (example_tnx 2)
             = ContractLogicError (map PStr [''Insufficient balance''])"
    by (simp add: replay_def example_world_def example_tnx_def)
  have m: "replay example_world (example_tnx 4)
             = ContractLogicError (map PStr [''execution reverted'', ''Insufficient balance''])"
    by (simp add: replay_def example_world_def example_tnx_def)
  have g: "replay example_world (example_tnx 0) = ValueError [Dict [''code'' \<mapsto> PInt (- 32000)]]"
    by (simp add: replay_def example_world_def example_tnx_def)
  have gc: "[''code'' \<mapsto> PInt (- 32000)] ''code'' = Some (PInt (- 32000))"
    by simp
  have h: "replay example_world (example_tnx 1) = ValueError [Dict [''code'' \<mapsto> PInt 3]]"
    by (simp add: replay_def example_world_def example_tnx_def)
  have hc: "[''code'' \<mapsto> PInt 3] ''code'' = Some (PInt 3)" and ne: "PInt 3 \<noteq> PInt (- 32000)"
    by simp_all
  note t = get_revert_reason_decodes [where w = example_world]
  have 1: "get_revert_reason example_world (example_tnx 3) = Inr None"
    by (rule t [where tnx = "example_tnx 3" and result = "[]",
          THEN conjunct2, THEN conjunct1, THEN mp]) (rule r)
  have "get_revert_reason example_world (example_tnx 2)
          = Inr (Some (''Insufficient balance'' @ concat (map (\<lambda>x. '', '' @ x) [])))"
    by (rule t [where tnx = "example_tnx 2" and message = "''Insufficient balance''"
          and messages = "[]",
          THEN conjunct2, THEN conjunct2, THEN conjunct2, THEN conjunct1, THEN mp]) (rule l)
  then have 2: "get_revert_reason example_world (example_tnx 2) = Inr (Some ''Insufficient balance'')"
    by simp
  have "get_revert_reason example_world (example_tnx 4)
          = Inr (Some (''execution reverted''
                        @ concat (map (\<lambda>x. '', '' @ x) [''Insufficient balance''])))"
    by (rule t [where tnx = "example_tnx 4" and message = "''execution reverted''"
          and messages = "[''Insufficient balance'']",
          THEN conjunct2, THEN conjunct2, THEN conjunct2, THEN conjunct1, THEN mp]) (rule m)
  then have 3: "get_revert_reason example_world (example_tnx 4)
          = Inr (Some ''execution reverted, Insufficient balance'')"
    by simp
  have 4: "get_revert_reason example_world (example_tnx 0) = Inr (Some ''Out of gas'')"
    by (rule t [where tnx = "example_tnx 0" and e = "[''code'' \<mapsto> PInt (- 32000)]"
          and rest = "[]",
          THEN conjunct2, THEN conjunct2, THEN conjunct2, THEN conjunct2, THEN conjunct1,
          THEN mp]) (intro conjI g gc)
  have 5: "get_revert_reason example_world (example_tnx 1) = Inr (Some ''Hidden Error'')"
    by (rule t [where tnx = "example_tnx 1" and e = "[''code'' \<mapsto> PInt 3]"
          and rest = "[]" and code = "PInt 3",
          THEN conjunct2, THEN conjunct2, THEN conjunct2, THEN conjunct2, THEN conjunct2,
          THEN mp]) (intro conjI h hc ne)
  from r l m g h ne 1 2 3 4 5 show ?thesis by (intro conjI)
qed

section \<open>Calls by path: the parts of a path\<close>

lemma two_parts: "length xs = 2 \<Longrightarrow> \<exists>a b. xs = [a, b]"
  by (auto simp: length_Suc_conv numeral_2_eq_2)

lemma get_function_two_parts:
  "split path CHR ''.'' = [name, function] \<Longrightarrow>
   get_function d w s path args address mainnet =
     (case (if \<not> truthy address
            then (case get_address_by_name d w s name of
                    (Inl e, s1) \<Rightarrow> (Inl e, s1)
                  | (Inr a, s1) \<Rightarrow> (Inr (PStr a), s1))
            else (Inr address, s)) of
        (Inl e, s1) \<Rightarrow> (Inl e, s1)
      | (Inr address', s1) \<Rightarrow>
          (case assemble_contract d w s1 (Args3 (Some name) address' mainnet) of
             (Inl e, s2) \<Rightarrow> (Inl e, s2)
           | (Inr contract, s2) \<Rightarrow>
               (case bind_function w contract function args of
                  Some msg \<Rightarrow> (Inl (External msg), s2)
                | None \<Rightarrow>
                    (Inr \<lparr>bc_contract = contract, bc_function = function, bc_args = args\<rparr>,
                     s2))))"
  by (simp add: get_function_def)

lemma get_function_other_parts:
  "length (split path CHR ''.'') \<noteq> 2 \<Longrightarrow>
   get_function d w s path args address mainnet =
     (Inl (InvalidPartCount (length (split path CHR ''.''))), s)"
  by (auto simp: get_function_def split: list.splits)

lemma estimate_gas_two_parts:
  "split path CHR ''.'' = [name, function] \<Longrightarrow>
   estimate_gas_for_call d w s path args block =
     (case get_contract_by_name d w s name of
        (Inl e, s1) \<Rightarrow> (Inl e, s1)
      | (Inr contract, s1) \<Rightarrow>
          (case bind_function w contract function args of
             Some msg \<Rightarrow> (Inl (External msg), s1)
           | None \<Rightarrow>
               (case estimateGas w
                       \<lparr>bc_contract = contract, bc_function = function, bc_args = args\<rparr>
                       (2 ^ 32) block of
                  Inl msg \<Rightarrow> (Inl (External msg), s1)
                | Inr gas \<Rightarrow> (Inr gas, s1))))"
  by (simp add: estimate_gas_for_call_def)

lemma estimate_gas_other_parts:
  "length (split path CHR ''.'') \<noteq> 2 \<Longrightarrow>
   estimate_gas_for_call d w s path args block =
     (Inl (InvalidPartCount (length (split path CHR ''.''))), s)"
  by (auto simp: estimate_gas_for_call_def split: list.splits)

text \<open>
  C10. A falsy \<^verbatim>\<open>address\<close> argument of \<^verbatim>\<open>get_function\<close> (\<^verbatim>\<open>None\<close>, the empty string, zero)
  is the same as no address: the result and the state are those of the call with the
  default \<^verbatim>\<open>None\<close>, and when the path has two parts the address is the one
  \<^verbatim>\<open>get_address_by_name\<close> resolves for the contract name: its exception is the result, or
  the contract is assembled at the resolved address.
\<close>

theorem get_function_falsy_address:
  assumes "\<not> truthy address"
  shows "get_function d w s path args address mainnet = get_function d w s path args PNone mainnet
       \<and> (\<forall>name function e s1. split path CHR ''.'' = [name, function]
             \<and> get_address_by_name d w s name = (Inl e, s1) \<longrightarrow>
             get_function d w s path args address mainnet = (Inl e, s1))
       \<and> (\<forall>name function a s1. split path CHR ''.'' = [name, function]
             \<and> get_address_by_name d w s name = (Inr a, s1) \<longrightarrow>
             get_function d w s path args address mainnet =
               (case assemble_contract d w s1 (Args3 (Some name) (PStr a) mainnet) of
                  (Inl e, s2) \<Rightarrow> (Inl e, s2)
                | (Inr contract, s2) \<Rightarrow>
                    (case bind_function w contract function args of
                       Some msg \<Rightarrow> (Inl (External msg), s2)
                     | None \<Rightarrow>
                         (Inr \<lparr>bc_contract = contract, bc_function = function, bc_args = args\<rparr>,
                          s2))))"
proof (cases "length (split path CHR ''.'') = 2")
  case True
  then obtain name fn where "split path CHR ''.'' = [name, fn]"
    using two_parts by blast
  with assms show ?thesis by (simp add: get_function_two_parts)
next
  case False
  then have "\<And>name function. split path CHR ''.'' \<noteq> [name, function]" by auto
  with False show ?thesis by (simp add: get_function_other_parts)
qed

theorem get_function_falsy_address_witness:
  "\<not> truthy (PStr '''') \<and> \<not> truthy (PInt 0) \<and> \<not> truthy PNone
 \<and> get_function (Suc (Suc (Suc (Suc (Suc (Suc 0)))))) example_world example_state
       ''rocketTokenRPL.totalSupply'' [] (PStr '''') False
     = get_function (Suc (Suc (Suc (Suc (Suc (Suc 0)))))) example_world example_state
       ''rocketTokenRPL.totalSupply'' [] PNone False
 \<and> get_function (Suc (Suc (Suc (Suc (Suc (Suc 0)))))) example_world example_state
       ''rocketTokenRPL.totalSupply'' [] (PInt 0) False
     = get_function (Suc (Suc (Suc (Suc (Suc (Suc 0)))))) example_world example_state
       ''rocketTokenRPL.totalSupply'' [] PNone False
 \<and> fst (get_function (Suc (Suc (Suc (Suc (Suc (Suc 0)))))) example_world example_state
       ''rocketTokenRPL.totalSupply'' [] PNone False)
     = Inr \<lparr>bc_contract = \<lparr>c_address = PStr ''0x02'', c_abi = ''[abi]'', c_mainnet = False\<rparr>,
            bc_function = ''totalSupply'', bc_args = []\<rparr>"
proof -
  have f: "\<not> truthy (PStr '''')" "\<not> truthy (PInt 0)" "\<not> truthy PNone" by simp_all
  have v: "fst (get_function (Suc (Suc (Suc (Suc (Suc (Suc 0)))))) example_world example_state
       ''rocketTokenRPL.totalSupply'' [] PNone False)
     = Inr \<lparr>bc_contract = \<lparr>c_address = PStr ''0x02'', c_abi = ''[abi]'', c_mainnet = False\<rparr>,
            bc_function = ''totalSupply'', bc_args = []\<rparr>"
    by (simp add: get_function_two_parts [of _ "''rocketTokenRPL''" "''totalSupply''"] example_simps)
  from get_function_falsy_address [OF f(1), THEN conjunct1]
       get_function_falsy_address [OF f(2), THEN conjunct1] f v
  show ?thesis by simp
qed

section \<open>Malformed paths\<close>

lemma split_not_Nil: "split p c \<noteq> []"
  by (induction p) (auto split: list.splits)

lemma length_split: "length (split p c) = Suc (count_list p c)"
proof (induction p)
  case Nil
  show ?case by simp
next
  case (Cons x xs)
  then show ?case
    using split_not_Nil [of xs c] by (cases "split xs c") auto
qed

lemma split_no_separator: "count_list p c = 0 \<Longrightarrow> split p c = [p]"
  by (induction p) (auto split: if_splits)

lemma split_one_separator:
  "count_list p c = 1 \<Longrightarrow>
   split p c = [takeWhile (\<lambda>x. x \<noteq> c) p, tl (dropWhile (\<lambda>x. x \<noteq> c) p)]"
proof (induction p)
  case Nil
  then show ?case by simp
next
  case (Cons x xs)
  show ?case
  proof (cases "x = c")
    case True
    with Cons.prems have "count_list xs c = 0" by simp
    with True show ?thesis by (simp add: split_no_separator)
  next
    case False
    with Cons.prems have "count_list xs c = 1" by simp
    with Cons.IH False show ?thesis by simp
  qed
qed

lemma resolver_no_part_count:
  "(\<forall>w s x r s'. get_address_by_name d w s x = (r, s') \<longrightarrow> r \<noteq> Inl (InvalidPartCount n))
 \<and> (\<forall>w s x r s'. uncached_get_address_by_name d w s x = (r, s') \<longrightarrow> r \<noteq> Inl (InvalidPartCount n))
 \<and> (\<forall>w s x r s'. get_abi_by_name d w s x = (r, s') \<longrightarrow> r \<noteq> Inl (InvalidPartCount n))
 \<and> (\<forall>w s x r s'. uncached_get_abi_by_name d w s x = (r, s') \<longrightarrow> r \<noteq> Inl (InvalidPartCount n))
 \<and> (\<forall>w s x r s'. assemble_contract d w s x = (r, s') \<longrightarrow> r \<noteq> Inl (InvalidPartCount n))
 \<and> (\<forall>w s x r s'. get_contract_by_name d w s x = (r, s') \<longrightarrow> r \<noteq> Inl (InvalidPartCount n))"
proof (induction d)
  case 0
  show ?case by simp
next
  case (Suc d)
  note ga = Suc [THEN conjunct1, rule_format]
  note un = Suc [THEN conjunct2, THEN conjunct1, rule_format]
  note gb = Suc [THEN conjunct2, THEN conjunct2, THEN conjunct1, rule_format]
  note ub = Suc [THEN conjunct2, THEN conjunct2, THEN conjunct2, THEN conjunct1, rule_format]
  note ac = Suc [THEN conjunct2, THEN conjunct2, THEN conjunct2, THEN conjunct2, THEN conjunct1,
      rule_format]
  note gc = Suc [THEN conjunct2, THEN conjunct2, THEN conjunct2, THEN conjunct2, THEN conjunct2,
      rule_format]
  have 1: "\<forall>w s x r s'. get_address_by_name (Suc d) w s x = (r, s') \<longrightarrow> r \<noteq> Inl (InvalidPartCount n)"
    by (auto split: option.splits sum.splits prod.splits dest: un)
  have 2: "\<forall>w s x r s'. uncached_get_address_by_name (Suc d) w s x = (r, s') \<longrightarrow> r \<noteq> Inl (InvalidPartCount n)"
    by (auto simp: bidict_setitem_def split: option.splits sum.splits prod.splits if_splits dest: gc)
  have 3: "\<forall>w s x r s'. get_abi_by_name (Suc d) w s x = (r, s') \<longrightarrow> r \<noteq> Inl (InvalidPartCount n)"
    by (auto split: option.splits sum.splits prod.splits dest: ub)
  have 4: "\<forall>w s x r s'. uncached_get_abi_by_name (Suc d) w s x = (r, s') \<longrightarrow> r \<noteq> Inl (InvalidPartCount n)"
  proof (intro allI impI)
    fix w s x r s'
    assume "uncached_get_abi_by_name (Suc d) w s x = (r, s')"
    then show "r \<noteq> Inl (InvalidPartCount n)"
      by (cases x) (auto split: option.splits sum.splits prod.splits if_splits dest: gc)
  qed
  have 5: "\<forall>w s x r s'. assemble_contract (Suc d) w s x = (r, s') \<longrightarrow> r \<noteq> Inl (InvalidPartCount n)"
    by (auto split: option.splits sum.splits prod.splits if_splits dest: gb)
  have 6: "\<forall>w s x r s'. get_contract_by_name (Suc d) w s x = (r, s') \<longrightarrow> r \<noteq> Inl (InvalidPartCount n)"
    by (auto split: option.splits sum.splits prod.splits if_splits dest: ga ac)
  show ?case
    by (rule conjI 1 2 3 4 5 6)+
qed

lemmas get_address_no_part_count = resolver_no_part_count [THEN conjunct1, rule_format]
lemmas assemble_no_part_count =
  resolver_no_part_count [THEN conjunct2, THEN conjunct2, THEN conjunct2, THEN conjunct2,
    THEN conjunct1, rule_format]
lemmas get_contract_no_part_count =
  resolver_no_part_count [THEN conjunct2, THEN conjunct2, THEN conjunct2, THEN conjunct2,
    THEN conjunct2, rule_format]

lemma get_function_part_count:
  "(\<exists>n. fst (get_function d w s path args address mainnet) = Inl (InvalidPartCount n))
   \<longleftrightarrow> count_list path CHR ''.'' \<noteq> 1"
proof (cases "count_list path CHR ''.'' = 1")
  case True
  then have "length (split path CHR ''.'') = 2" by (simp add: length_split)
  then obtain name fn where two: "split path CHR ''.'' = [name, fn]"
    using two_parts by blast
  have "fst (get_function d w s path args address mainnet) \<noteq> Inl (InvalidPartCount n)" for n
    unfolding get_function_two_parts [OF two]
    by (auto split: prod.splits sum.splits option.splits if_splits
             dest: get_address_no_part_count assemble_no_part_count)
  with True show ?thesis by simp
next
  case False
  then have "length (split path CHR ''.'') \<noteq> 2" by (simp add: length_split)
  with False show ?thesis by (simp add: get_function_other_parts)
qed

lemma call_part_count:
  "(\<exists>n. fst (call d w s path args block address mainnet) = Inl (InvalidPartCount n))
   \<longleftrightarrow> count_list path CHR ''.'' \<noteq> 1"
proof -
  have "(\<exists>n. fst (call d w s path args block address mainnet) = Inl (InvalidPartCount n))
        \<longleftrightarrow> (\<exists>n. fst (get_function d w s path args address mainnet) = Inl (InvalidPartCount n))"
    by (cases "get_function d w s path args address mainnet")
       (auto simp: call_def split: sum.splits)
  then show ?thesis by (simp add: get_function_part_count)
qed

lemma estimate_gas_part_count:
  "(\<exists>n. fst (estimate_gas_for_call d w s path args block) = Inl (InvalidPartCount n))
   \<longleftrightarrow> count_list path CHR ''.'' \<noteq> 1"
proof (cases "count_list path CHR ''.'' = 1")
  case True
  then have "length (split path CHR ''.'') = 2" by (simp add: length_split)
  then obtain name fn where two: "split path CHR ''.'' = [name, fn]"
    using two_parts by blast
  have "fst (estimate_gas_for_call d w s path args block) \<noteq> Inl (InvalidPartCount n)" for n
    unfolding estimate_gas_two_parts [OF two]
    by (auto split: prod.splits sum.splits option.splits dest: get_contract_no_part_count)
  with True show ?thesis by simp
next
  case False
  then have "length (split path CHR ''.'') \<noteq> 2" by (simp add: length_split)
  with False show ?thesis by (simp add: estimate_gas_other_parts)
qed

text \<open>
  C5 (as the code has it). The path-parsing step of \<^verbatim>\<open>get_function\<close>, \<^verbatim>\<open>call\<close> and
  \<^verbatim>\<open>estimate_gas_for_call\<close> raises the invalid-path exception if and only if the path does
  not contain exactly one dot: no dot and more than one dot fail. A path with exactly one
  dot is accepted and split at the dot into the contract name and the function name,
  either of which may be empty.
\<close>

theorem invalid_path_iff_not_one_dot:
  "((\<exists>n. fst (get_function d w s path args address mainnet) = Inl (InvalidPartCount n))
      \<longleftrightarrow> count_list path CHR ''.'' \<noteq> 1)
 \<and> ((\<exists>n. fst (call d w s path args block address mainnet) = Inl (InvalidPartCount n))
      \<longleftrightarrow> count_list path CHR ''.'' \<noteq> 1)
 \<and> ((\<exists>n. fst (estimate_gas_for_call d w s path args block) = Inl (InvalidPartCount n))
      \<longleftrightarrow> count_list path CHR ''.'' \<noteq> 1)
 \<and> (count_list path CHR ''.'' = 1 \<longrightarrow>
      split path CHR ''.'' =
        [takeWhile (\<lambda>c. c \<noteq> CHR ''.'') path, tl (dropWhile (\<lambda>c. c \<noteq> CHR ''.'') path)])"
  using get_function_part_count [of d w s path args address mainnet]
    call_part_count [of d w s path args block address mainnet]
    estimate_gas_part_count [of d w s path args block]
    split_one_separator [of path "CHR ''.''"]
  by (intro conjI impI)

theorem invalid_path_iff_not_one_dot_witness:
  "count_list ''rocketTokenRPL.getInflationIntervalRate'' CHR ''.'' = 1
 \<and> split ''rocketTokenRPL.getInflationIntervalRate'' CHR ''.''
     = [''rocketTokenRPL'', ''getInflationIntervalRate'']
 \<and> count_list ''invalid'' CHR ''.'' \<noteq> 1
 \<and> (\<exists>n. fst (get_function (Suc 0) example_world example_state ''invalid'' [] PNone False)
        = Inl (InvalidPartCount n))
 \<and> count_list ''a.b.c'' CHR ''.'' \<noteq> 1
 \<and> (\<exists>n. fst (estimate_gas_for_call (Suc 0) example_world example_state ''a.b.c'' [] PNone)
        = Inl (InvalidPartCount n))"
proof -
  have one: "count_list ''rocketTokenRPL.getInflationIntervalRate'' CHR ''.'' = 1" by simp
  have zero: "count_list ''invalid'' CHR ''.'' \<noteq> 1" by simp
  have two: "count_list ''a.b.c'' CHR ''.'' \<noteq> 1" by simp
  note t1 = invalid_path_iff_not_one_dot [where path = "''rocketTokenRPL.getInflationIntervalRate''",
      THEN conjunct2, THEN conjunct2, THEN conjunct2, rule_format, OF one]
  note t2 = invalid_path_iff_not_one_dot [where path = "''invalid''" and d = "Suc 0"
      and w = example_world and s = example_state and args = "[]" and address = PNone
      and mainnet = False, THEN conjunct1]
  note t3 = invalid_path_iff_not_one_dot [where path = "''a.b.c''" and d = "Suc 0"
      and w = example_world and s = example_state and args = "[]" and block = PNone,
      THEN conjunct2, THEN conjunct2, THEN conjunct1]
  from t1 have s1: "split ''rocketTokenRPL.getInflationIntervalRate'' CHR ''.''
     = [''rocketTokenRPL'', ''getInflationIntervalRate'']" by simp
  from t2 zero have s2: "\<exists>n. fst (get_function (Suc 0) example_world example_state ''invalid'' [] PNone False)
        = Inl (InvalidPartCount n)" by blast
  from t3 two have s3: "\<exists>n. fst (estimate_gas_for_call (Suc 0) example_world example_state ''a.b.c'' [] PNone)
        = Inl (InvalidPartCount n)" by blast
  from one zero two s1 s2 s3 show ?thesis by blast
qed

text \<open>
  The path \<^verbatim>\<open>"rocketStorage."\<close> has an empty function name and passes the parsing step:
  the exception comes later, from binding the function.
\<close>

theorem empty_part_counterexample:
  "split ''rocketStorage.'' CHR ''.'' = [''rocketStorage'', '''']
 \<and> fst (get_function (Suc (Suc (Suc 0))) example_world example_state ''rocketStorage.'' [] PNone False)
     = Inl (External ''ABIFunctionNotFound'')"
proof -
  have two: "split ''rocketStorage.'' CHR ''.'' = [''rocketStorage'', '''']" by simp
  show ?thesis
    by (simp add: get_function_two_parts [OF two] example_simps)
qed

section \<open>Deposit events\<close>

lemma processReceipt_skipped:
  "(\<forall>x \<in> set xs. \<exists>e. decode x = Inl e \<and> caught e) \<Longrightarrow>
   \<exists>warnings. processReceipt decode xs = Inr ([], warnings)"
proof (induction xs)
  case Nil
  show ?case by simp
next
  case (Cons x xs)
  from Cons.prems obtain e where e: "decode x = Inl e" "caught e" by auto
  from Cons.prems have "\<forall>x \<in> set xs. \<exists>e. decode x = Inl e \<and> caught e" by simp
  from Cons.IH [OF this] obtain ws where "processReceipt decode xs = Inr ([], ws)" ..
  with e show ?case by simp
qed

lemma processReceipt_completes:
  "(\<forall>x \<in> set xs. \<forall>e. decode x = Inl e \<longrightarrow> caught e) \<Longrightarrow>
   \<exists>events warnings. processReceipt decode xs = Inr (events, warnings)"
proof (induction xs)
  case Nil
  show ?case by simp
next
  case (Cons x xs)
  from Cons.prems have "\<forall>x \<in> set xs. \<forall>e. decode x = Inl e \<longrightarrow> caught e" by simp
  from Cons.IH [OF this] obtain evs ws where rest: "processReceipt decode xs = Inr (evs, ws)"
    by blast
  show ?case
  proof (cases "decode x")
    case (Inl e)
    with Cons.prems have "caught e" by simp
    with Inl rest show ?thesis by simp
  next
    case (Inr event)
    with rest show ?thesis by simp
  qed
qed

lemma processReceipt_first_event:
  assumes "\<forall>x \<in> set before. \<exists>e. decode x = Inl e \<and> caught e"
    and "decode entry = Inr event"
    and "\<forall>x \<in> set after. \<forall>e. decode x = Inl e \<longrightarrow> caught e"
  shows "\<exists>events warnings.
           processReceipt decode (before @ entry # after) = Inr (event # events, warnings)"
  using assms(1)
proof (induction before)
  case Nil
  from processReceipt_completes [OF assms(3)]
  obtain evs ws where "processReceipt decode after = Inr (evs, ws)" by blast
  with assms(2) show ?case by simp
next
  case (Cons x xs)
  from Cons.prems obtain e where e: "decode x = Inl e" "caught e" by auto
  from Cons.prems have "\<forall>x \<in> set xs. \<exists>e. decode x = Inl e \<and> caught e" by simp
  from Cons.IH [OF this] obtain evs ws
    where "processReceipt decode (xs @ entry # after) = Inr (event # evs, ws)" by blast
  with e show ?case by simp
qed

lemma processReceipt_raises:
  assumes "\<forall>x \<in> set before. \<forall>e. decode x = Inl e \<longrightarrow> caught e"
    and "decode entry = Inl exn" and "\<not> caught exn"
  shows "processReceipt decode (before @ entry # after) = Inl exn"
  using assms(1)
proof (induction before)
  case Nil
  from assms(2,3) show ?case by simp
next
  case (Cons x xs)
  from Cons.prems have "\<forall>x \<in> set xs. \<forall>e. decode x = Inl e \<longrightarrow> caught e" by simp
  from Cons.IH [OF this] have rest: "processReceipt decode (xs @ entry # after) = Inl exn" .
  show ?case
  proof (cases "decode x")
    case (Inl e)
    with Cons.prems have "caught e" by simp
    with Inl rest show ?thesis by simp
  next
    case (Inr event)
    with rest show ?thesis by simp
  qed
qed

text \<open>
  C8 (as the code has it). Let the deposit contract be resolved and have the deposit
  event. \<^verbatim>\<open>get_pubkey_using_transaction\<close> decodes every entry of the receipt against that
  event. An entry whose decoding raises one of the four exceptions that the chain client
  turns into warnings (\<^verbatim>\<open>MismatchedABI\<close>, \<^verbatim>\<open>LogTopicError\<close>, \<^verbatim>\<open>InvalidEventABI\<close>,
  \<^verbatim>\<open>TypeError\<close>) is skipped silently. When no entry raises anything else, the result is
  the hexadecimal string of the public key of the first entry that decodes, or \<^verbatim>\<open>None\<close>
  when no entry decodes. When the decoding of an entry raises any other exception, and no
  entry before it does, the call raises that exception, also when an earlier entry has
  decoded.
\<close>

theorem get_pubkey_first_deposit_event:
  assumes "fst (get_contract_by_name d w s ''casperDeposit'') = Inr contract"
    and "DepositEvent w contract = Inr decode"
  shows "((\<forall>x \<in> set receipt. \<exists>e. decode x = Inl e \<and> caught e) \<longrightarrow>
            get_pubkey_using_transaction d w s receipt
              = (Inr None, snd (get_contract_by_name d w s ''casperDeposit'')))
       \<and> (receipt = before @ entry # after
            \<and> (\<forall>x \<in> set before. \<exists>e. decode x = Inl e \<and> caught e)
            \<and> decode entry = Inr event
            \<and> (\<forall>x \<in> set after. \<forall>e. decode x = Inl e \<longrightarrow> caught e) \<longrightarrow>
            get_pubkey_using_transaction d w s receipt
              = (Inr (Some (hex (pubkey event))), snd (get_contract_by_name d w s ''casperDeposit'')))
       \<and> (receipt = earlier @ failing # later
            \<and> (\<forall>x \<in> set earlier. \<forall>e. decode x = Inl e \<longrightarrow> caught e)
            \<and> decode failing = Inl exn \<and> \<not> caught exn \<longrightarrow>
            get_pubkey_using_transaction d w s receipt
              = (Inl exn, snd (get_contract_by_name d w s ''casperDeposit'')))"
proof -
  obtain s1 where g: "get_contract_by_name d w s ''casperDeposit'' = (Inr contract, s1)"
    using assms(1) by (cases "get_contract_by_name d w s ''casperDeposit''") simp
  have eq: "get_pubkey_using_transaction d w s receipt =
      (case processReceipt decode receipt of
         Inl e \<Rightarrow> (Inl e, s1)
       | Inr (processed_logs, warnings) \<Rightarrow>
           (case processed_logs of
              [] \<Rightarrow> (Inr None, s1)
            | deposit_event # _ \<Rightarrow> (Inr (Some (hex (pubkey deposit_event))), s1)))"
    using g assms(2) by (simp add: get_pubkey_using_transaction_def)
  have 1: "(\<forall>x \<in> set receipt. \<exists>e. decode x = Inl e \<and> caught e) \<longrightarrow>
            get_pubkey_using_transaction d w s receipt
              = (Inr None, snd (get_contract_by_name d w s ''casperDeposit''))"
  proof
    assume "\<forall>x \<in> set receipt. \<exists>e. decode x = Inl e \<and> caught e"
    from processReceipt_skipped [OF this]
    obtain ws where "processReceipt decode receipt = Inr ([], ws)" ..
    then show "get_pubkey_using_transaction d w s receipt
              = (Inr None, snd (get_contract_by_name d w s ''casperDeposit''))"
      using g by (simp add: eq)
  qed
  have 2: "receipt = before @ entry # after
            \<and> (\<forall>x \<in> set before. \<exists>e. decode x = Inl e \<and> caught e)
            \<and> decode entry = Inr event
            \<and> (\<forall>x \<in> set after. \<forall>e. decode x = Inl e \<longrightarrow> caught e) \<longrightarrow>
            get_pubkey_using_transaction d w s receipt
              = (Inr (Some (hex (pubkey event))), snd (get_contract_by_name d w s ''casperDeposit''))"
  proof
    assume h: "receipt = before @ entry # after
            \<and> (\<forall>x \<in> set before. \<exists>e. decode x = Inl e \<and> caught e)
            \<and> decode entry = Inr event
            \<and> (\<forall>x \<in> set after. \<forall>e. decode x = Inl e \<longrightarrow> caught e)"
    then have r: "receipt = before @ entry # after"
      and b: "\<forall>x \<in> set before. \<exists>e. decode x = Inl e \<and> caught e"
      and e: "decode entry = Inr event"
      and a: "\<forall>x \<in> set after. \<forall>e. decode x = Inl e \<longrightarrow> caught e"
      by simp_all
    from processReceipt_first_event [OF b e a] obtain evs ws
      where "processReceipt decode receipt = Inr (event # evs, ws)"
      unfolding r by blast
    then show "get_pubkey_using_transaction d w s receipt
              = (Inr (Some (hex (pubkey event))), snd (get_contract_by_name d w s ''casperDeposit''))"
      using g by (simp add: eq)
  qed
  have 3: "receipt = earlier @ failing # later
            \<and> (\<forall>x \<in> set earlier. \<forall>e. decode x = Inl e \<longrightarrow> caught e)
            \<and> decode failing = Inl exn \<and> \<not> caught exn \<longrightarrow>
            get_pubkey_using_transaction d w s receipt
              = (Inl exn, snd (get_contract_by_name d w s ''casperDeposit''))"
  proof
    assume h: "receipt = earlier @ failing # later
            \<and> (\<forall>x \<in> set earlier. \<forall>e. decode x = Inl e \<longrightarrow> caught e)
            \<and> decode failing = Inl exn \<and> \<not> caught exn"
    then have r: "receipt = earlier @ failing # later"
      and b: "\<forall>x \<in> set earlier. \<forall>e. decode x = Inl e \<longrightarrow> caught e"
      and e: "decode failing = Inl exn" and n: "\<not> caught exn"
      by simp_all
    have "processReceipt decode receipt = Inl exn"
      unfolding r using b e n by (rule processReceipt_raises)
    then show "get_pubkey_using_transaction d w s receipt
              = (Inl exn, snd (get_contract_by_name d w s ''casperDeposit''))"
      using g by (simp add: eq)
  qed
  from 1 2 3 show ?thesis by (intro conjI)
qed

theorem get_pubkey_first_deposit_event_witness:
  "fst (get_contract_by_name (Suc (Suc (Suc (Suc (Suc (Suc (Suc 0))))))) example_world example_state
        ''casperDeposit'')
     = Inr \<lparr>c_address = PStr ''0x03'', c_abi = ''[abi]'', c_mainnet = False\<rparr>
 \<and> example_receipt = [([[0x01]], [0x00])] @ ([[0x64]], [0xab, 0x01]) # [([[0x64]], [0xff])]
 \<and> fst (get_pubkey_using_transaction (Suc (Suc (Suc (Suc (Suc (Suc (Suc 0))))))) example_world
        example_state example_receipt) = Inr (Some ''ab01'')
 \<and> fst (get_pubkey_using_transaction (Suc (Suc (Suc (Suc (Suc (Suc (Suc 0))))))) example_world
        example_state [([[0x01]], [0x00])]) = Inr None
 \<and> truncated_receipt = [([[0x64]], [0xab, 0x01])] @ ([[0x64]], []) # []
 \<and> \<not> caught (External ''InsufficientDataBytes'')
 \<and> fst (get_pubkey_using_transaction (Suc (Suc (Suc (Suc (Suc (Suc (Suc 0))))))) example_world
        example_state truncated_receipt) = Inl (External ''InsufficientDataBytes'')"
proof -
  let ?d = "Suc (Suc (Suc (Suc (Suc (Suc (Suc 0))))))"
  let ?c = "\<lparr>c_address = PStr ''0x03'', c_abi = ''[abi]'', c_mainnet = False\<rparr>"
  let ?decode = "\<lambda>entry :: log_entry.
         if fst entry = [[0x64]]
         then (if snd entry = [] then Inl (External ''InsufficientDataBytes'')
               else Inr \<lparr>pubkey = snd entry\<rparr>)
         else Inl MismatchedABI"
  have c: "fst (get_contract_by_name ?d example_world example_state ''casperDeposit'') = Inr ?c"
    by (simp add: example_simps)
  have dec: "DepositEvent example_world ?c = Inr ?decode"
    by (simp add: example_world_def)
  have r: "example_receipt = [([[0x01]], [0x00])] @ ([[0x64]], [0xab, 0x01]) # [([[0x64]], [0xff])]"
    by (simp add: example_receipt_def)
  have skipped: "\<forall>x \<in> set [([[0x01 :: 8 word]], [0x00 :: 8 word])].
                   \<exists>e. ?decode x = Inl e \<and> caught e"
    by simp
  have first: "?decode ([[0x64]], [0xab, 0x01]) = Inr \<lparr>pubkey = [0xab, 0x01]\<rparr>"
    by simp
  have rest: "\<forall>x \<in> set [([[0x64 :: 8 word]], [0xff :: 8 word])]. \<forall>e. ?decode x = Inl e \<longrightarrow> caught e"
    by simp
  have tr: "truncated_receipt = [([[0x64]], [0xab, 0x01])] @ ([[0x64]], []) # []"
    by (simp add: truncated_receipt_def)
  have earlier: "\<forall>x \<in> set [([[0x64 :: 8 word]], [0xab :: 8 word, 0x01])].
                   \<forall>e. ?decode x = Inl e \<longrightarrow> caught e"
    by simp
  have raising: "?decode ([[0x64]], []) = Inl (External ''InsufficientDataBytes'')"
    by simp
  have nc: "\<not> caught (External ''InsufficientDataBytes'')"
    by simp
  note t = get_pubkey_first_deposit_event [OF c dec]
  have "get_pubkey_using_transaction ?d example_world example_state example_receipt
          = (Inr (Some (hex (pubkey \<lparr>pubkey = [0xab, 0x01]\<rparr>))),
             snd (get_contract_by_name ?d example_world example_state ''casperDeposit''))"
    by (rule t [where receipt = example_receipt and before = "[([[0x01]], [0x00])]"
          and entry = "([[0x64]], [0xab, 0x01])" and after = "[([[0x64]], [0xff])]"
          and event = "\<lparr>pubkey = [0xab, 0x01]\<rparr>", THEN conjunct2, THEN conjunct1, THEN mp])
       (intro conjI r skipped first rest)
  then have "fst (get_pubkey_using_transaction ?d example_world example_state example_receipt)
          = Inr (Some (hex (pubkey \<lparr>pubkey = [0xab, 0x01]\<rparr>)))"
    by (simp only: fst_conv)
  then have 1: "fst (get_pubkey_using_transaction ?d example_world example_state example_receipt)
          = Inr (Some ''ab01'')"
    by (simp add: hex_digit_def)
  have "get_pubkey_using_transaction ?d example_world example_state [([[0x01]], [0x00])]
          = (Inr None, snd (get_contract_by_name ?d example_world example_state ''casperDeposit''))"
    by (rule t [where receipt = "[([[0x01]], [0x00])]", THEN conjunct1, THEN mp]) (rule skipped)
  then have 2: "fst (get_pubkey_using_transaction ?d example_world example_state [([[0x01]], [0x00])])
          = Inr None"
    by (simp only: fst_conv)
  have "get_pubkey_using_transaction ?d example_world example_state truncated_receipt
          = (Inl (External ''InsufficientDataBytes''),
             snd (get_contract_by_name ?d example_world example_state ''casperDeposit''))"
    by (rule t [where receipt = truncated_receipt and earlier = "[([[0x64]], [0xab, 0x01])]"
          and failing = "([[0x64]], [])" and later = "[]"
          and exn = "External ''InsufficientDataBytes''", THEN conjunct2, THEN conjunct2, THEN mp])
       (intro conjI tr earlier raising nc)
  then have 3: "fst (get_pubkey_using_transaction ?d example_world example_state truncated_receipt)
          = Inl (External ''InsufficientDataBytes'')"
    by (simp only: fst_conv)
  from c r 1 2 tr nc 3 show ?thesis by (intro conjI)
qed

text \<open>
  The first entry of the receipt is a deposit event with public key \<^verbatim>\<open>ab01\<close>; the decoding
  of the second raises \<^verbatim>\<open>InsufficientDataBytes\<close>, which is not one of the four exceptions
  that become warnings. The call does not return the public key: it raises.
\<close>

theorem undecodable_entry_counterexample:
  "fst (get_contract_by_name (Suc (Suc (Suc (Suc (Suc (Suc (Suc 0))))))) example_world example_state
        ''casperDeposit'')
     = Inr \<lparr>c_address = PStr ''0x03'', c_abi = ''[abi]'', c_mainnet = False\<rparr>
 \<and> truncated_receipt = [([[0x64]], [0xab, 0x01]), ([[0x64]], [])]
 \<and> fst (get_pubkey_using_transaction (Suc (Suc (Suc (Suc (Suc (Suc (Suc 0))))))) example_world
        example_state truncated_receipt) = Inl (External ''InsufficientDataBytes'')"
  by (simp add: get_pubkey_using_transaction_def truncated_receipt_def example_simps)

section \<open>Consequences of the invariant for each method\<close>

lemmas get_address_resolves = resolver_invariant [THEN conjunct1, rule_format]
lemmas uncached_get_address_resolves =
  resolver_invariant [THEN conjunct2, THEN conjunct1, rule_format]
lemmas get_abi_quiet =
  resolver_invariant [THEN conjunct2, THEN conjunct2, THEN conjunct1, rule_format]
lemmas assemble_contract_quiet =
  resolver_invariant [THEN conjunct2, THEN conjunct2, THEN conjunct2, THEN conjunct2,
    THEN conjunct1, rule_format]
lemmas get_contract_resolves =
  resolver_invariant [THEN conjunct2, THEN conjunct2, THEN conjunct2, THEN conjunct2,
    THEN conjunct2, rule_format]

lemma get_storage_quiet:
  "invariant s \<Longrightarrow> get_contract_by_name d w s ''rocketStorage'' = (r, s1) \<Longrightarrow> quiet s s1"
  by (rule storage_quiet [OF get_contract_resolves])

lemma cache_miss_unregistered:
  "invariant s \<Longrightarrow> fwdm (addresses s) name = None \<Longrightarrow>
   cache_getitem (ADDRESS_CACHE s) name = None"
  using cache_hit_registry [of s name]
  by (cases "cache_getitem (ADDRESS_CACHE s) name") auto

section \<open>Local ABI files\<close>

text \<open>
  C6 (as the code has it). When the local ABI file of the name exists and is not empty,
  \<^verbatim>\<open>assemble_contract\<close> never asks for the cached or on-chain ABI: the ABI cache and the
  log of chain calls are left as they were. On a miss of the contract cache the handle is
  built from the contents of the file (or the contract factory raises); on a hit the
  cached handle is returned.
\<close>

theorem assemble_contract_local_abi:
  assumes "abi_files w (abi_path (args_name args)) = Some contents" and "contents \<noteq> []"
  shows "assemble_contract (Suc d) w s args =
           (case cache_getitem (CONTRACT_CACHE s) args of
              Some c \<Rightarrow> (Inr c, s)
            | None \<Rightarrow>
                (case contract_factory w (args_mainnet args) (args_address args) contents of
                   Some msg \<Rightarrow> (Inl (External msg), s)
                 | None \<Rightarrow>
                     (Inr \<lparr>c_address = args_address args, c_abi = contents,
                           c_mainnet = args_mainnet args\<rparr>,
                      s\<lparr>CONTRACT_CACHE :=
                          cached_store (CONTRACT_CACHE s) args
                            \<lparr>c_address = args_address args, c_abi = contents,
                             c_mainnet = args_mainnet args\<rparr>\<rparr>)))
       \<and> ABI_CACHE (snd (assemble_contract n w s args)) = ABI_CACHE s
       \<and> rpc_log (snd (assemble_contract n w s args)) = rpc_log s"
proof -
  have eq: "assemble_contract (Suc k) w s args =
           (case cache_getitem (CONTRACT_CACHE s) args of
              Some c \<Rightarrow> (Inr c, s)
            | None \<Rightarrow>
                (case contract_factory w (args_mainnet args) (args_address args) contents of
                   Some msg \<Rightarrow> (Inl (External msg), s)
                 | None \<Rightarrow>
                     (Inr \<lparr>c_address = args_address args, c_abi = contents,
                           c_mainnet = args_mainnet args\<rparr>,
                      s\<lparr>CONTRACT_CACHE :=
                          cached_store (CONTRACT_CACHE s) args
                            \<lparr>c_address = args_address args, c_abi = contents,
                             c_mainnet = args_mainnet args\<rparr>\<rparr>)))" for k
    using assms by (simp split: option.splits)
  have "ABI_CACHE (snd (assemble_contract n w s args)) = ABI_CACHE s
      \<and> rpc_log (snd (assemble_contract n w s args)) = rpc_log s"
  proof (cases n)
    case 0
    then show ?thesis by simp
  next
    case (Suc k)
    show ?thesis unfolding Suc eq by (simp split: option.splits)
  qed
  with eq [of d] show ?thesis by simp
qed

theorem assemble_contract_local_abi_witness:
  "abi_files example_world (abi_path (args_name (Args2 (Some ''rocketStorage'') (PStr ''0x01''))))
     = Some ''[storage]''
 \<and> ''[storage]'' \<noteq> []
 \<and> fst (assemble_contract (Suc 0) example_world example_state
          (Args2 (Some ''rocketStorage'') (PStr ''0x01'')))
     = Inr \<lparr>c_address = PStr ''0x01'', c_abi = ''[storage]'', c_mainnet = False\<rparr>
 \<and> ABI_CACHE (snd (assemble_contract (Suc 0) example_world example_state
          (Args2 (Some ''rocketStorage'') (PStr ''0x01'')))) = ABI_CACHE example_state
 \<and> rpc_log (snd (assemble_contract (Suc 0) example_world example_state
          (Args2 (Some ''rocketStorage'') (PStr ''0x01'')))) = rpc_log example_state"
proof -
  have f: "abi_files example_world (abi_path (args_name (Args2 (Some ''rocketStorage'') (PStr ''0x01''))))
     = Some ''[storage]''"
    by (simp add: example_world_def abi_path_def)
  have n: "''[storage]'' \<noteq> []" by simp
  note t = assemble_contract_local_abi [OF f n, of 0 example_state "Suc 0"]
  from t have "fst (assemble_contract (Suc 0) example_world example_state
          (Args2 (Some ''rocketStorage'') (PStr ''0x01'')))
     = Inr \<lparr>c_address = PStr ''0x01'', c_abi = ''[storage]'', c_mainnet = False\<rparr>"
    by (simp add: example_simps)
  with t f n show ?thesis by blast
qed

text \<open>
  The local ABI file of \<^verbatim>\<open>"rocketDepositPool"\<close> exists and is empty: the ABI string is
  fetched from the storage contract and the handle carries the decoded on-chain ABI.
\<close>

theorem empty_local_abi_counterexample:
  "abi_files example_world (abi_path (Some ''rocketDepositPool'')) = Some ''''
 \<and> fst (assemble_contract (Suc (Suc (Suc (Suc (Suc (Suc 0)))))) example_world example_state
          (Args2 (Some ''rocketDepositPool'') (PStr ''0x04'')))
     = Inr \<lparr>c_address = PStr ''0x04'', c_abi = ''[abi]'', c_mainnet = False\<rparr>
 \<and> rpc_log (snd (assemble_contract (Suc (Suc (Suc (Suc (Suc (Suc 0)))))) example_world example_state
          (Args2 (Some ''rocketDepositPool'') (PStr ''0x04''))))
     = [GetString (abi_slot ''rocketDepositPool'')]"
  by (simp add: example_simps)

section \<open>Names the chain does not know\<close>

lemma example_state_invariant: "invariant example_state"
proof -
  have "bijective \<lparr>fwdm = [''rocketStorage'' \<mapsto> ''0x01''], invm = [''0x01'' \<mapsto> ''rocketStorage'']\<rparr>"
    by (rule bijectiveI) (simp_all split: if_splits)
  then show ?thesis
    by (simp add: invariant_def cache_agrees_def example_state_eq FIFOCache_def)
qed

text \<open>
  C4. Let the name be absent from the registry, in a state that satisfies the invariant
  (every reachable state does), and let the storage contract resolve. If the on-chain lookup of the slot of
  \<^verbatim>\<open>("contract.address", name)\<close> returns an address whose integer value is zero, then
  \<^verbatim>\<open>get_address_by_name\<close> raises the no-address exception, the registry is unchanged, and
  the name is not in the address cache either.
\<close>

theorem zero_address_not_found:
  assumes "invariant s" and "fwdm (addresses s) name = None"
    and "fst (get_contract_by_name d w s ''rocketStorage'') = Inr storage"
    and "getAddress w storage (address_slot name) = Inr address"
    and "toInt w address = 0"
  shows "fst (get_address_by_name (Suc (Suc d)) w s name) = Inl (NoAddressFound name)
       \<and> addresses (snd (get_address_by_name (Suc (Suc d)) w s name)) = addresses s
       \<and> cache_getitem (ADDRESS_CACHE (snd (get_address_by_name (Suc (Suc d)) w s name))) name = None"
proof -
  obtain s1 where g: "get_contract_by_name d w s ''rocketStorage'' = (Inr storage, s1)"
    using assms(3) by (cases "get_contract_by_name d w s ''rocketStorage''") simp
  from assms(1) g have q: "quiet s s1" by (rule get_storage_quiet)
  then have inv1: "invariant s1" and same: "addresses s1 = addresses s"
    by (simp_all add: quiet_def)
  from assms(1,2) have miss: "cache_getitem (ADDRESS_CACHE s) name = None"
    by (rule cache_miss_unregistered)
  from inv1 assms(2) same have miss1: "cache_getitem (ADDRESS_CACHE s1) name = None"
    by (simp add: cache_miss_unregistered)
  have "get_address_by_name (Suc (Suc d)) w s name =
          (Inl (NoAddressFound name),
           s1\<lparr>rpc_log := rpc_log s1 @ [GetAddress (address_slot name)]\<rparr>)"
    using miss assms(2,4,5) g by simp
  with same miss1 show ?thesis by simp
qed

theorem zero_address_not_found_witness:
  "invariant example_state
 \<and> fwdm (addresses example_state) ''unknownContract'' = None
 \<and> fst (get_contract_by_name (Suc (Suc (Suc 0))) example_world example_state ''rocketStorage'')
     = Inr \<lparr>c_address = PStr ''0x01'', c_abi = ''[storage]'', c_mainnet = False\<rparr>
 \<and> getAddress example_world \<lparr>c_address = PStr ''0x01'', c_abi = ''[storage]'', c_mainnet = False\<rparr>
       (address_slot ''unknownContract'') = Inr ''0x00''
 \<and> toInt example_world ''0x00'' = 0
 \<and> fst (get_address_by_name (Suc (Suc (Suc (Suc (Suc 0))))) example_world example_state
          ''unknownContract'') = Inl (NoAddressFound ''unknownContract'')
 \<and> addresses (snd (get_address_by_name (Suc (Suc (Suc (Suc (Suc 0))))) example_world example_state
          ''unknownContract'')) = addresses example_state"
proof -
  have a: "fwdm (addresses example_state) ''unknownContract'' = None"
    by (simp add: example_state_eq)
  have b: "fst (get_contract_by_name (Suc (Suc (Suc 0))) example_world example_state ''rocketStorage'')
     = Inr \<lparr>c_address = PStr ''0x01'', c_abi = ''[storage]'', c_mainnet = False\<rparr>"
    by (simp add: example_simps)
  have c: "getAddress example_world \<lparr>c_address = PStr ''0x01'', c_abi = ''[storage]'', c_mainnet = False\<rparr>
       (address_slot ''unknownContract'') = Inr ''0x00''"
    by (simp add: example_world_def)
  have d: "toInt example_world ''0x00'' = 0"
    by (simp add: example_world_def)
  note t = zero_address_not_found [OF example_state_invariant a b c d]
  from example_state_invariant a b c d t show ?thesis by (intro conjI) (rule TrueI | blast)+
qed

section \<open>Flush\<close>

lemma seed_addresses_other_fields:
  "seed_addresses s xs = (r, s') \<Longrightarrow>
   ADDRESS_CACHE s' = ADDRESS_CACHE s \<and> ABI_CACHE s' = ABI_CACHE s
   \<and> CONTRACT_CACHE s' = CONTRACT_CACHE s \<and> rpc_log s' = rpc_log s
   \<and> multicall s' = multicall s"
proof (induction xs arbitrary: s)
  case Nil
  then show ?case by simp
next
  case (Cons x xs)
  obtain name address where x: "x = (name, address)" by (cases x)
  show ?case
  proof (cases "bidict_setitem (addresses s) name address")
    case (Inl e)
    with Cons.prems x show ?thesis by simp
  next
    case (Inr b)
    with Cons.prems x have "seed_addresses (s\<lparr>addresses := b\<rparr>) xs = (r, s')" by simp
    from Cons.IH [OF this] show ?thesis by simp
  qed
qed

lemma seed_addresses_bijective:
  "bijective (addresses s) \<Longrightarrow> seed_addresses s xs = (r, s') \<Longrightarrow> bijective (addresses s')"
proof (induction xs arbitrary: s)
  case Nil
  then show ?case by simp
next
  case (Cons x xs)
  obtain name address where x: "x = (name, address)" by (cases x)
  show ?case
  proof (cases "bidict_setitem (addresses s) name address")
    case (Inl e)
    with Cons.prems x show ?thesis by simp
  next
    case (Inr b)
    with Cons.prems x have run: "seed_addresses (s\<lparr>addresses := b\<rparr>) xs = (r, s')" by simp
    from Cons.prems(1) Inr have "bijective b" by (rule bidict_setitem_bijective)
    then have "bijective (addresses (s\<lparr>addresses := b\<rparr>))" by simp
    from Cons.IH [OF this run] show ?thesis .
  qed
qed

lemma seed_addresses_registry:
  assumes "distinct (map fst xs)"
    and "\<forall>n \<in> fst ` set xs. fwdm (addresses s) n = None"
    and "seed_addresses s xs = (Inr (), s')"
  shows "fwdm (addresses s') = fwdm (addresses s) ++ map_of xs"
  using assms
proof (induction xs arbitrary: s)
  case Nil
  then show ?case by simp
next
  case (Cons x xs)
  obtain name address where x: "x = (name, address)" by (cases x)
  from Cons.prems(2) x have none: "fwdm (addresses s) name = None" by simp
  show ?case
  proof (cases "bidict_setitem (addresses s) name address")
    case (Inl e)
    with Cons.prems(3) x show ?thesis by simp
  next
    case (Inr b)
    with Cons.prems(3) x have run: "seed_addresses (s\<lparr>addresses := b\<rparr>) xs = (Inr (), s')"
      by simp
    from none Inr have fb: "fwdm b = (fwdm (addresses s))(name \<mapsto> address)"
      by (auto simp: bidict_setitem_def split: option.splits)
    from Cons.prems(1) x have fresh: "name \<notin> fst ` set xs" and dist: "distinct (map fst xs)"
      by auto
    have "\<forall>n \<in> fst ` set xs. fwdm (addresses (s\<lparr>addresses := b\<rparr>)) n = None"
    proof
      fix n
      assume n: "n \<in> fst ` set xs"
      with fresh have "n \<noteq> name" by auto
      moreover from n Cons.prems(2) have "fwdm (addresses s) n = None" by auto
      ultimately show "fwdm (addresses (s\<lparr>addresses := b\<rparr>)) n = None"
        by (simp add: fb)
    qed
    note ih = Cons.IH [OF dist this run]
    have fb': "fwdm (addresses (s\<lparr>addresses := b\<rparr>)) = (fwdm (addresses s))(name \<mapsto> address)"
      using fb by simp
    have "fwdm (addresses s') = (fwdm (addresses s))(name \<mapsto> address) ++ map_of xs"
      by (simp only: ih fb')
    also have "\<dots> = fwdm (addresses s) ++ map_of (x # xs)"
    proof
      fix k
      from fresh have "map_of xs name = None"
        by (simp add: map_of_eq_None_iff)
      then show "((fwdm (addresses s))(name \<mapsto> address) ++ map_of xs) k
                   = (fwdm (addresses s) ++ map_of (x # xs)) k"
        by (cases "k = name") (simp_all add: x map_add_def split: option.splits)
    qed
    finally show ?thesis .
  qed
qed

lemma flush_invariant: "invariant (snd (flush w s))"
proof -
  let ?s0 = "s\<lparr>CONTRACT_CACHE := cache_clear (CONTRACT_CACHE s),
          ABI_CACHE := cache_clear (ABI_CACHE s),
          ADDRESS_CACHE := cache_clear (ADDRESS_CACHE s),
          addresses := bidict_empty,
          multicall := (case new_Multicall w of Inl err \<Rightarrow> None | Inr m \<Rightarrow> Some m)\<rparr>"
  obtain r s' where run: "seed_addresses ?s0 (manual_addresses w) = (r, s')"
    by (cases "seed_addresses ?s0 (manual_addresses w)")
  have "bijective (addresses ?s0)" by (simp add: bidict_empty_bijective)
  from this run have "bijective (addresses s')" by (rule seed_addresses_bijective)
  moreover from seed_addresses_other_fields [OF run]
  have "items (ADDRESS_CACHE s') = []" by (simp add: cache_clear_def)
  ultimately have "invariant s'" by (simp add: invariant_def cache_agrees_def)
  with run show ?thesis by (simp add: flush_def)
qed

text \<open>
  C2. Let the manual addresses have distinct names (they are a dictionary), and let
  \<^verbatim>\<open>flush\<close> complete without an exception. Then the three caches are empty and the registry
  is exactly the manual addresses, in both directions. So every other name, whatever was
  resolved before, is resolved from the chain again: a next \<^verbatim>\<open>get_address_by_name\<close> that
  returns an address has made an on-chain lookup for that name.
\<close>

theorem flush_resets:
  assumes "distinct (map fst (manual_addresses w))" and "flush w s = (Inr (), s')"
  shows "items (ADDRESS_CACHE s') = [] \<and> items (ABI_CACHE s') = []
       \<and> items (CONTRACT_CACHE s') = []
       \<and> fwdm (addresses s') = map_of (manual_addresses w)
       \<and> (\<forall>n a. invm (addresses s') a = Some n \<longleftrightarrow> (n, a) \<in> set (manual_addresses w))
       \<and> (\<forall>name d w' a s''. name \<notin> fst ` set (manual_addresses w) \<longrightarrow>
             get_address_by_name d w' s' name = (Inr a, s'') \<longrightarrow>
             address_lookups s'' name = Suc (address_lookups s' name))"
proof -
  let ?s0 = "s\<lparr>CONTRACT_CACHE := cache_clear (CONTRACT_CACHE s),
          ABI_CACHE := cache_clear (ABI_CACHE s),
          ADDRESS_CACHE := cache_clear (ADDRESS_CACHE s),
          addresses := bidict_empty,
          multicall := (case new_Multicall w of Inl err \<Rightarrow> None | Inr m \<Rightarrow> Some m)\<rparr>"
  from assms(2) have run: "seed_addresses ?s0 (manual_addresses w) = (Inr (), s')"
    by (simp add: flush_def)
  from seed_addresses_other_fields [OF run]
  have caches: "items (ADDRESS_CACHE s') = []" "items (ABI_CACHE s') = []"
      "items (CONTRACT_CACHE s') = []"
    by (simp_all add: cache_clear_def)
  have "\<forall>n \<in> fst ` set (manual_addresses w). fwdm (addresses ?s0) n = None"
    by (simp add: bidict_empty_def)
  from seed_addresses_registry [OF assms(1) this run]
  have fwd: "fwdm (addresses s') = map_of (manual_addresses w)"
    by (simp add: bidict_empty_def)
  from assms(2) flush_invariant [of w s] have inv: "invariant s'" by simp
  then have bij: "bijective (addresses s')" by (simp add: invariant_def)
  have inverse: "\<forall>n a. invm (addresses s') a = Some n \<longleftrightarrow> (n, a) \<in> set (manual_addresses w)"
  proof (intro allI)
    fix n a
    have "invm (addresses s') a = Some n \<longleftrightarrow> fwdm (addresses s') n = Some a"
      using bij by (auto dest: bijective_fwd bijective_inv)
    also have "\<dots> \<longleftrightarrow> (n, a) \<in> set (manual_addresses w)"
      using assms(1) by (simp add: fwd)
    finally show "invm (addresses s') a = Some n \<longleftrightarrow> (n, a) \<in> set (manual_addresses w)" .
  qed
  have again: "\<forall>name d w' a s''. name \<notin> fst ` set (manual_addresses w) \<longrightarrow>
             get_address_by_name d w' s' name = (Inr a, s'') \<longrightarrow>
             address_lookups s'' name = Suc (address_lookups s' name)"
  proof (intro allI impI)
    fix name d w' a s''
    assume new: "name \<notin> fst ` set (manual_addresses w)"
      and got: "get_address_by_name d w' s' name = (Inr a, s'')"
    from new have none: "fwdm (addresses s') name = None"
      by (simp add: fwd map_of_eq_None_iff)
    from inv none have miss: "cache_getitem (ADDRESS_CACHE s') name = None"
      by (rule cache_miss_unregistered)
    from got obtain k where d: "d = Suc k" by (cases d) auto
    obtain r1 s1 where u: "uncached_get_address_by_name k w' s' name = (r1, s1)"
      by (cases "uncached_get_address_by_name k w' s' name")
    from got d miss none u have r1: "r1 = Inr a"
      and s'': "s'' = s1\<lparr>ADDRESS_CACHE := cached_store (ADDRESS_CACHE s1) name a\<rparr>"
      by (cases r1; simp)+
    from uncached_get_address_resolves [OF inv none u] r1
    have "address_lookups s1 name = Suc (address_lookups s' name)" by simp
    with s'' show "address_lookups s'' name = Suc (address_lookups s' name)" by simp
  qed
  from caches fwd inverse again show ?thesis by (intro conjI)
qed

lemma used_state_eq:
  "used_state =
     \<lparr>ADDRESS_CACHE = \<lparr>maxsize = 2048,
                       items = [(''rocketStorage'', ''0x01''), (''rocketTokenRPL'', ''0x02'')]\<rparr>,
      ABI_CACHE = \<lparr>maxsize = 2048, items = [(Some ''rocketTokenRPL'', ''[abi]'')]\<rparr>,
      CONTRACT_CACHE = \<lparr>maxsize = 2048,
         items = [(Args2 (Some ''rocketStorage'') (PStr ''0x01''),
                   \<lparr>c_address = PStr ''0x01'', c_abi = ''[storage]'', c_mainnet = False\<rparr>),
                  (Args2 (Some ''rocketTokenRPL'') (PStr ''0x02''),
                   \<lparr>c_address = PStr ''0x02'', c_abi = ''[abi]'', c_mainnet = False\<rparr>)]\<rparr>,
      addresses = \<lparr>fwdm = [''rocketStorage'' \<mapsto> ''0x01'', ''rocketTokenRPL'' \<mapsto> ''0x02''],
                   invm = [''0x01'' \<mapsto> ''rocketStorage'', ''0x02'' \<mapsto> ''rocketTokenRPL'']\<rparr>,
      multicall = Some Multicall,
      rpc_log = [GetAddress (address_slot ''rocketTokenRPL''),
                 GetString (abi_slot ''rocketTokenRPL'')]\<rparr>"
  by (simp add: used_state_def example_simps)

lemma flush_used_state: "flush example_world used_state = (Inr (), flushed_state)"
  by (simp add: flush_def used_state_eq flushed_state_def example_simps cache_clear_def
      bidict_empty_def)

theorem flush_resets_witness:
  "distinct (map fst (manual_addresses example_world))
 \<and> flush example_world used_state = (Inr (), flushed_state)
 \<and> items (ADDRESS_CACHE used_state) \<noteq> [] \<and> items (ABI_CACHE used_state) \<noteq> []
 \<and> items (CONTRACT_CACHE used_state) \<noteq> []
 \<and> fwdm (addresses used_state) ''rocketTokenRPL'' = Some ''0x02''
 \<and> items (ADDRESS_CACHE flushed_state) = [] \<and> items (ABI_CACHE flushed_state) = []
 \<and> items (CONTRACT_CACHE flushed_state) = []
 \<and> fwdm (addresses flushed_state) = map_of [(''rocketStorage'', ''0x01'')]
 \<and> ''rocketTokenRPL'' \<notin> fst ` set (manual_addresses example_world)
 \<and> fst (get_address_by_name (Suc (Suc (Suc (Suc 0)))) example_world flushed_state ''rocketTokenRPL'')
     = Inr ''0x02''
 \<and> address_lookups flushed_state ''rocketTokenRPL'' = 1
 \<and> address_lookups
       (snd (get_address_by_name (Suc (Suc (Suc (Suc 0)))) example_world flushed_state
              ''rocketTokenRPL'')) ''rocketTokenRPL'' = 2"
proof -
  have dist: "distinct (map fst (manual_addresses example_world))"
    by (simp add: example_world_def)
  have new: "''rocketTokenRPL'' \<notin> fst ` set (manual_addresses example_world)"
    by (simp add: example_world_def)
  have manual: "manual_addresses example_world = [(''rocketStorage'', ''0x01'')]"
    by (simp add: example_world_def)
  have before: "items (ADDRESS_CACHE used_state) \<noteq> []" "items (ABI_CACHE used_state) \<noteq> []"
    "items (CONTRACT_CACHE used_state) \<noteq> []"
    "fwdm (addresses used_state) ''rocketTokenRPL'' = Some ''0x02''"
    by (simp_all add: used_state_eq)
  have res: "fst (get_address_by_name (Suc (Suc (Suc (Suc 0)))) example_world flushed_state
                ''rocketTokenRPL'') = Inr ''0x02''"
    by (simp add: flushed_state_def example_simps)
  then have got: "get_address_by_name (Suc (Suc (Suc (Suc 0)))) example_world flushed_state
                ''rocketTokenRPL''
      = (Inr ''0x02'', snd (get_address_by_name (Suc (Suc (Suc (Suc 0)))) example_world
                flushed_state ''rocketTokenRPL''))"
    by (simp only: prod_eq_iff fst_conv snd_conv simp_thms)
  have one: "address_lookups flushed_state ''rocketTokenRPL'' = 1"
    by (simp add: flushed_state_def address_lookups_def)
  note t = flush_resets [OF dist flush_used_state]
  from t have caches: "items (ADDRESS_CACHE flushed_state) = []"
    "items (ABI_CACHE flushed_state) = []" "items (CONTRACT_CACHE flushed_state) = []"
    "fwdm (addresses flushed_state) = map_of (manual_addresses example_world)"
    by blast+
  from t have "\<forall>name d w' a s''. name \<notin> fst ` set (manual_addresses example_world) \<longrightarrow>
             get_address_by_name d w' flushed_state name = (Inr a, s'') \<longrightarrow>
             address_lookups s'' name = Suc (address_lookups flushed_state name)"
    by blast
  from this [rule_format, OF new got] one
  have two: "address_lookups
       (snd (get_address_by_name (Suc (Suc (Suc (Suc 0)))) example_world flushed_state
              ''rocketTokenRPL'')) ''rocketTokenRPL'' = 2"
    by simp
  from dist flush_used_state before caches new res one two manual show ?thesis
    by (simp only: simp_thms)
qed

section \<open>Runs of operations between two flushes\<close>

lemma resolves_keeps:
  assumes "resolves n s s'" and "fwdm (addresses s) name = Some a"
  shows "fwdm (addresses s') name = Some a \<and> address_lookups s' name = address_lookups s name"
proof -
  from assms(1) consider
      (same) "addresses s' = addresses s" "\<forall>m. address_lookups s' m = address_lookups s m"
    | (looked) "fwdm (addresses s) n = None"
        "\<forall>m. address_lookups s' m = (if m = n then Suc (address_lookups s n) else address_lookups s m)"
        "addresses s' = addresses s \<or> (\<exists>b. fwdm (addresses s') = (fwdm (addresses s))(n \<mapsto> b))"
    by (auto simp: resolves_def)
  then show ?thesis
  proof cases
    case same
    with assms(2) show ?thesis by simp
  next
    case looked
    from looked(1) assms(2) have neq: "name \<noteq> n" by auto
    with looked(2) have "address_lookups s' name = address_lookups s name" by simp
    moreover from looked(3) neq assms(2) have "fwdm (addresses s') name = Some a" by auto
    ultimately show ?thesis by simp
  qed
qed

lemma get_function_resolves:
  assumes "invariant s"
  shows "\<exists>n. resolves n s (snd (get_function d w s path args address mainnet))"
proof (cases "length (split path CHR ''.'') = 2")
  case False
  with assms show ?thesis
    by (auto simp: get_function_other_parts intro: quiet_refl quiet_resolves)
next
  case True
  then obtain name fn where two: "split path CHR ''.'' = [name, fn]"
    using two_parts by blast
  show ?thesis
  proof (cases "truthy address")
    case True
    obtain r2 s2 where a: "assemble_contract d w s (Args3 (Some name) address mainnet) = (r2, s2)"
      by (cases "assemble_contract d w s (Args3 (Some name) address mainnet)")
    from assms a have "quiet s s2" by (rule assemble_contract_quiet)
    then have "resolves name s s2" by (rule quiet_resolves)
    moreover from True a have "snd (get_function d w s path args address mainnet) = s2"
      by (simp add: get_function_two_parts [OF two] split: sum.splits option.splits)
    ultimately show ?thesis by auto
  next
    case False
    obtain r1 s1 where g: "get_address_by_name d w s name = (r1, s1)"
      by (cases "get_address_by_name d w s name")
    from get_address_resolves [OF assms g] have res: "resolves name s s1" by simp
    show ?thesis
    proof (cases r1)
      case (Inl e)
      with False g have "snd (get_function d w s path args address mainnet) = s1"
        by (simp add: get_function_two_parts [OF two])
      with res show ?thesis by auto
    next
      case (Inr a)
      obtain r2 s2 where ac: "assemble_contract d w s1 (Args3 (Some name) (PStr a) mainnet) = (r2, s2)"
        by (cases "assemble_contract d w s1 (Args3 (Some name) (PStr a) mainnet)")
      from res have "invariant s1" by (rule resolves_invariant)
      from this ac have "quiet s1 s2" by (rule assemble_contract_quiet)
      with res have "resolves name s s2" by (rule resolves_then_quiet)
      moreover from False g Inr ac have "snd (get_function d w s path args address mainnet) = s2"
        by (simp add: get_function_two_parts [OF two] split: sum.splits option.splits)
      ultimately show ?thesis by auto
    qed
  qed
qed

lemma call_state:
  "snd (call d w s path args block address mainnet)
     = snd (get_function d w s path args address mainnet)"
  by (cases "get_function d w s path args address mainnet")
     (simp add: call_def split: sum.splits)

lemma estimate_gas_resolves:
  assumes "invariant s"
  shows "\<exists>n. resolves n s (snd (estimate_gas_for_call d w s path args block))"
proof (cases "length (split path CHR ''.'') = 2")
  case False
  with assms show ?thesis
    by (auto simp: estimate_gas_other_parts intro: quiet_refl quiet_resolves)
next
  case True
  then obtain name fn where two: "split path CHR ''.'' = [name, fn]"
    using two_parts by blast
  obtain r1 s1 where g: "get_contract_by_name d w s name = (r1, s1)"
    by (cases "get_contract_by_name d w s name")
  from assms g have "resolves name s s1" by (rule get_contract_resolves)
  moreover from g have "snd (estimate_gas_for_call d w s path args block) = s1"
    by (simp add: estimate_gas_two_parts [OF two] split: sum.splits option.splits)
  ultimately show ?thesis by auto
qed

lemma get_pubkey_resolves:
  assumes "invariant s"
  shows "\<exists>n. resolves n s (snd (get_pubkey_using_transaction d w s receipt))"
proof -
  obtain r1 s1 where g: "get_contract_by_name d w s ''casperDeposit'' = (r1, s1)"
    by (cases "get_contract_by_name d w s ''casperDeposit''")
  from assms g have "resolves ''casperDeposit'' s s1" by (rule get_contract_resolves)
  moreover from g have "snd (get_pubkey_using_transaction d w s receipt) = s1"
    by (simp add: get_pubkey_using_transaction_def split: sum.splits list.splits prod.splits)
  ultimately show ?thesis by auto
qed

lemma perform_resolves:
  assumes "invariant s"
  shows "\<exists>n. resolves n s (perform d w s x)"
proof (cases x)
  case (Get_address_by_name name)
  obtain r s' where g: "get_address_by_name d w s name = (r, s')"
    by (cases "get_address_by_name d w s name")
  from get_address_resolves [OF assms g] have "resolves name s s'" by simp
  with g Get_address_by_name show ?thesis by auto
next
  case (Get_revert_reason tnx)
  with assms show ?thesis by (auto intro: quiet_refl quiet_resolves)
next
  case (Get_abi_by_name name)
  obtain r s' where g: "get_abi_by_name d w s name = (r, s')"
    by (cases "get_abi_by_name d w s name")
  from assms g have "quiet s s'" by (rule get_abi_quiet)
  with g Get_abi_by_name show ?thesis by (auto intro: quiet_resolves)
next
  case (Assemble_contract args)
  obtain r s' where g: "assemble_contract d w s args = (r, s')"
    by (cases "assemble_contract d w s args")
  from assms g have "quiet s s'" by (rule assemble_contract_quiet)
  with g Assemble_contract show ?thesis by (auto intro: quiet_resolves)
next
  case (Get_name_by_address address)
  with assms show ?thesis by (auto intro: quiet_refl quiet_resolves)
next
  case (Get_contract_by_name name)
  obtain r s' where g: "get_contract_by_name d w s name = (r, s')"
    by (cases "get_contract_by_name d w s name")
  from assms g have "resolves name s s'" by (rule get_contract_resolves)
  with g Get_contract_by_name show ?thesis by auto
next
  case (Get_contract_by_address address)
  obtain r s' where g: "assemble_contract d w s
      (Args2 (get_name_by_address s address) (PStr address)) = (r, s')"
    by (cases "assemble_contract d w s (Args2 (get_name_by_address s address) (PStr address))")
  from assms g have "quiet s s'" by (rule assemble_contract_quiet)
  with g Get_contract_by_address show ?thesis
    by (auto simp: get_contract_by_address_def intro: quiet_resolves)
next
  case (Estimate_gas_for_call path args block)
  with estimate_gas_resolves [OF assms] show ?thesis by simp
next
  case (Get_function path args address mainnet)
  with get_function_resolves [OF assms] show ?thesis by simp
next
  case (Call path args block address mainnet)
  with get_function_resolves [OF assms] show ?thesis by (simp add: call_state)
next
  case (Get_pubkey_using_transaction receipt)
  with get_pubkey_resolves [OF assms] show ?thesis by simp
qed

lemma perform_all_keeps:
  assumes "invariant s" and "fwdm (addresses s) name = Some a"
  shows "invariant (perform_all d s xs)
       \<and> fwdm (addresses (perform_all d s xs)) name = Some a
       \<and> address_lookups (perform_all d s xs) name = address_lookups s name"
  using assms
proof (induction xs arbitrary: s)
  case Nil
  then show ?case by simp
next
  case (Cons wx xs)
  obtain w x where wx: "wx = (w, x)" by (cases wx)
  from perform_resolves [OF Cons.prems(1)] obtain n where r: "resolves n s (perform d w s x)" ..
  then have inv: "invariant (perform d w s x)" by (rule resolves_invariant)
  from resolves_keeps [OF r Cons.prems(2)]
  have keep: "fwdm (addresses (perform d w s x)) name = Some a"
    and looks: "address_lookups (perform d w s x) name = address_lookups s name"
    by simp_all
  from Cons.IH [OF inv keep] looks wx show ?case by simp
qed

lemma registered_name_hit:
  assumes "invariant s" and "fwdm (addresses s) name = Some a"
  shows "fst (get_address_by_name (Suc d) w s name) = Inr a
       \<and> rpc_log (snd (get_address_by_name (Suc d) w s name)) = rpc_log s
       \<and> addresses (snd (get_address_by_name (Suc d) w s name)) = addresses s"
proof (cases "cache_getitem (ADDRESS_CACHE s) name")
  case None
  with assms(2) show ?thesis by simp
next
  case (Some v)
  with assms have "v = a" using cache_hit_registry [of s name v] by simp
  with Some show ?thesis by simp
qed

lemma reachable_invariant: "reachable s \<Longrightarrow> invariant s"
proof (induction rule: reachable.induct)
  case (init w)
  show ?case unfolding RocketPool_def by (rule flush_invariant)
next
  case (flushed s w)
  show ?case by (rule flush_invariant)
next
  case (performed s d w x)
  from perform_resolves [OF performed.IH] obtain n where "resolves n s (perform d w s x)" ..
  then show ?case by (rule resolves_invariant)
qed

text \<open>
  C9. In a state that satisfies the invariant (every reachable state does), let
  \<^verbatim>\<open>get_address_by_name\<close> return an address for a name. Then the name is in the registry
  with that address, and it stays there through every run of operations without a flush,
  whatever happens to the bounded address cache. So a later \<^verbatim>\<open>get_address_by_name\<close> for the
  name returns that address and makes no call to the chain.
\<close>

theorem resolved_name_stays_registered:
  assumes "invariant s" and "get_address_by_name d w s name = (Inr a, s1)"
  shows "fwdm (addresses s1) name = Some a
       \<and> invariant (perform_all d' s1 ops)
       \<and> fwdm (addresses (perform_all d' s1 ops)) name = Some a
       \<and> fst (get_address_by_name (Suc k) w' (perform_all d' s1 ops) name) = Inr a
       \<and> rpc_log (snd (get_address_by_name (Suc k) w' (perform_all d' s1 ops) name))
           = rpc_log (perform_all d' s1 ops)"
proof -
  from get_address_resolves [OF assms] have res: "resolves name s s1"
    and reg: "fwdm (addresses s1) name = Some a"
    by simp_all
  from res have inv1: "invariant s1" by (rule resolves_invariant)
  note keep = perform_all_keeps [OF inv1 reg, of d' ops]
  from keep have inv2: "invariant (perform_all d' s1 ops)"
    and reg2: "fwdm (addresses (perform_all d' s1 ops)) name = Some a"
    by simp_all
  note hit = registered_name_hit [OF inv2 reg2, of k w']
  from reg inv2 reg2 hit show ?thesis by simp
qed

text \<open>
  C3. In a state that satisfies the invariant (every reachable state does), let
  \<^verbatim>\<open>get_address_by_name\<close> return an address for a name. Then after every run of operations without a flush (further
  resolutions of the same name among them) a call for that name returns the identical
  address, and the on-chain lookups for the name number at most one over all of it: the
  first call makes at most one, the operations in between and the later call make none.
\<close>

theorem repeated_resolution_one_lookup:
  assumes "invariant s" and "get_address_by_name d w s name = (Inr a, s1)"
  shows "fst (get_address_by_name (Suc k) w' (perform_all d' s1 ops) name) = Inr a
       \<and> address_lookups s1 name \<le> Suc (address_lookups s name)
       \<and> address_lookups (snd (get_address_by_name (Suc k) w' (perform_all d' s1 ops) name)) name
           = address_lookups s1 name"
proof -
  from get_address_resolves [OF assms] have res: "resolves name s s1"
    and reg: "fwdm (addresses s1) name = Some a"
    by simp_all
  from res have inv1: "invariant s1" by (rule resolves_invariant)
  from res have once: "address_lookups s1 name \<le> Suc (address_lookups s name)"
    by (auto simp: resolves_def)
  note keep = perform_all_keeps [OF inv1 reg, of d' ops]
  from keep have inv2: "invariant (perform_all d' s1 ops)"
    and reg2: "fwdm (addresses (perform_all d' s1 ops)) name = Some a"
    and looks: "address_lookups (perform_all d' s1 ops) name = address_lookups s1 name"
    by simp_all
  note hit = registered_name_hit [OF inv2 reg2, of k w']
  from hit have "address_lookups (snd (get_address_by_name (Suc k) w' (perform_all d' s1 ops) name)) name
           = address_lookups (perform_all d' s1 ops) name"
    by (simp add: address_lookups_def)
  with hit once looks show ?thesis by simp
qed

lemma small_state_invariant: "invariant small_state"
  using example_state_invariant
  by (simp add: small_state_def invariant_def cache_agrees_def FIFOCache_def)

theorem resolved_name_stays_registered_witness:
  "invariant small_state
 \<and> get_address_by_name (Suc (Suc (Suc (Suc 0)))) example_world small_state ''rocketTokenRPL''
     = (Inr ''0x02'', resolved_state)
 \<and> cache_getitem (ADDRESS_CACHE resolved_state) ''rocketTokenRPL'' = Some ''0x02''
 \<and> cache_getitem
       (ADDRESS_CACHE (perform_all (Suc (Suc (Suc (Suc 0)))) resolved_state
          [(example_world, Get_address_by_name ''casperDeposit'')])) ''rocketTokenRPL'' = None
 \<and> fwdm (addresses (perform_all (Suc (Suc (Suc (Suc 0)))) resolved_state
          [(example_world, Get_address_by_name ''casperDeposit'')])) ''rocketTokenRPL''
     = Some ''0x02''
 \<and> fst (get_address_by_name (Suc 0) example_world
          (perform_all (Suc (Suc (Suc (Suc 0)))) resolved_state
             [(example_world, Get_address_by_name ''casperDeposit'')]) ''rocketTokenRPL'')
     = Inr ''0x02''
 \<and> rpc_log (snd (get_address_by_name (Suc 0) example_world
          (perform_all (Suc (Suc (Suc (Suc 0)))) resolved_state
             [(example_world, Get_address_by_name ''casperDeposit'')]) ''rocketTokenRPL''))
     = rpc_log (perform_all (Suc (Suc (Suc (Suc 0)))) resolved_state
             [(example_world, Get_address_by_name ''casperDeposit'')])"
proof -
  have res: "fst (get_address_by_name (Suc (Suc (Suc (Suc 0)))) example_world small_state
                ''rocketTokenRPL'') = Inr ''0x02''"
    by (simp add: small_state_def example_simps)
  then have got: "get_address_by_name (Suc (Suc (Suc (Suc 0)))) example_world small_state
                ''rocketTokenRPL'' = (Inr ''0x02'', resolved_state)"
    unfolding resolved_state_def by (simp only: prod_eq_iff fst_conv snd_conv simp_thms)
  have cached: "cache_getitem (ADDRESS_CACHE resolved_state) ''rocketTokenRPL'' = Some ''0x02''"
    by (simp add: resolved_state_def small_state_def example_simps)
  have evicted: "cache_getitem
       (ADDRESS_CACHE (perform_all (Suc (Suc (Suc (Suc 0)))) resolved_state
          [(example_world, Get_address_by_name ''casperDeposit'')])) ''rocketTokenRPL'' = None"
    by (simp add: resolved_state_def small_state_def example_simps)
  note t = resolved_name_stays_registered [OF small_state_invariant got,
      of "Suc (Suc (Suc (Suc 0)))" "[(example_world, Get_address_by_name ''casperDeposit'')]"
         0 example_world]
  from small_state_invariant got cached evicted t show ?thesis by (simp only: simp_thms)
qed

theorem repeated_resolution_one_lookup_witness:
  "invariant example_state
 \<and> get_address_by_name (Suc (Suc (Suc (Suc 0)))) example_world example_state ''rocketTokenRPL''
     = (Inr ''0x02'', first_state)
 \<and> address_lookups example_state ''rocketTokenRPL'' = 0
 \<and> address_lookups first_state ''rocketTokenRPL'' = 1
 \<and> fst (get_address_by_name (Suc 0) example_world
          (perform_all (Suc (Suc (Suc (Suc (Suc (Suc (Suc 0))))))) first_state
             [(example_world, Get_address_by_name ''rocketTokenRPL''),
              (example_world, Get_contract_by_name ''rocketTokenRPL'')]) ''rocketTokenRPL'')
     = Inr ''0x02''
 \<and> address_lookups (snd (get_address_by_name (Suc 0) example_world
          (perform_all (Suc (Suc (Suc (Suc (Suc (Suc (Suc 0))))))) first_state
             [(example_world, Get_address_by_name ''rocketTokenRPL''),
              (example_world, Get_contract_by_name ''rocketTokenRPL'')]) ''rocketTokenRPL''))
       ''rocketTokenRPL'' = 1"
proof -
  have res: "fst (get_address_by_name (Suc (Suc (Suc (Suc 0)))) example_world example_state
                ''rocketTokenRPL'') = Inr ''0x02''"
    by (simp add: example_simps)
  then have got: "get_address_by_name (Suc (Suc (Suc (Suc 0)))) example_world example_state
                ''rocketTokenRPL'' = (Inr ''0x02'', first_state)"
    unfolding first_state_def by (simp only: prod_eq_iff fst_conv snd_conv simp_thms)
  have zero: "address_lookups example_state ''rocketTokenRPL'' = 0"
    by (simp add: example_state_eq address_lookups_def)
  have one: "address_lookups first_state ''rocketTokenRPL'' = 1"
    by (simp add: first_state_def example_simps address_lookups_def)
  note t = repeated_resolution_one_lookup [OF example_state_invariant got,
      of 0 example_world "Suc (Suc (Suc (Suc (Suc (Suc (Suc 0))))))"
         "[(example_world, Get_address_by_name ''rocketTokenRPL''),
           (example_world, Get_contract_by_name ''rocketTokenRPL'')]"]
  from t one have last: "address_lookups (snd (get_address_by_name (Suc 0) example_world
          (perform_all (Suc (Suc (Suc (Suc (Suc (Suc (Suc 0))))))) first_state
             [(example_world, Get_address_by_name ''rocketTokenRPL''),
              (example_world, Get_contract_by_name ''rocketTokenRPL'')]) ''rocketTokenRPL''))
       ''rocketTokenRPL'' = 1"
    by (simp only:)
  from example_state_invariant got zero one t last show ?thesis by (simp only: simp_thms)
qed

end
